theory Spec2Isabelle
  imports Main "HOL-Library.Char_ord" "HOL-Library.List_Lexorder" "HOL-Library.Multiset"
begin

section \<open>Strings, runes and errors\<close>

text \<open>
  A Go string is a sequence of bytes, modelled as \<open>string\<close> (a list of 8-bit characters).
  The regular expression engine and \<open>filepath.Match\<close> read such a string rune by rune with
  \<open>utf8.DecodeRuneInString\<close>; a rune is modelled as a natural number.
\<close>

datatype error =
    ErrBadPattern
      \<comment> \<open>\<open>filepath.ErrBadPattern\<close>, "syntax error in pattern"\<close>
  | ErrNotInFormat string
      \<comment> \<open>"included resource %q is not in the format <type>.<name>"\<close>
  | ErrExternal string
      \<comment> \<open>an error produced outside this package (lister, file system, subprocess)\<close>
  | ErrFailedToGenerate string error
      \<comment> \<open>"failed to generate %s resources: %w"\<close>
  | ErrFailedToGenerateResources error
      \<comment> \<open>"failed to generate resources: %w"\<close>
  | ErrFailedToDelete string error
      \<comment> \<open>"failed to delete %s: %s"\<close>
  | ErrOutputDirExists string
      \<comment> \<open>"output dir %q already exists. Use the clobber option to delete it"\<close>
  | ErrFailedToCreate string error
      \<comment> \<open>"failed to create output directory %s: %s"\<close>
  | ErrTerraformInit error
      \<comment> \<open>"failed to run terraform init: %w"\<close>
  | ErrCrossplane
      \<comment> \<open>"crossplane output format is not yet supported"\<close>
  | PanicSendOnClosedChannel
      \<comment> \<open>the run-time panic "send on closed channel", which ends the process\<close>

definition RuneError :: nat where
  "RuneError = 0xFFFD"

text \<open>
  The table \<open>first\<close> of \<open>unicode/utf8\<close>, for a leading byte that is not ASCII: the length of
  the sequence and the accepted range of its second byte; \<open>None\<close> for an invalid leading byte.
\<close>

definition first :: "nat \<Rightarrow> (nat \<times> nat \<times> nat) option" where
  "first s0 =
     (if s0 < 0xC2 then None
      else if s0 \<le> 0xDF then Some (2, 0x80, 0xBF)
      else if s0 = 0xE0 then Some (3, 0xA0, 0xBF)
      else if s0 \<le> 0xEC then Some (3, 0x80, 0xBF)
      else if s0 = 0xED then Some (3, 0x80, 0x9F)
      else if s0 \<le> 0xEF then Some (3, 0x80, 0xBF)
      else if s0 = 0xF0 then Some (4, 0x90, 0xBF)
      else if s0 \<le> 0xF3 then Some (4, 0x80, 0xBF)
      else if s0 = 0xF4 then Some (4, 0x80, 0x8F)
      else None)"

text \<open>\<open>utf8.DecodeRuneInString\<close>: the first rune of the string and its width in bytes.\<close>

definition DecodeRuneInString :: "string \<Rightarrow> nat \<times> nat" where
  "DecodeRuneInString s =
     (if length s < 1 then (RuneError, 0)
      else let s0 = (of_char (s ! 0) :: nat) in
        if s0 < 0x80 then (s0, 1)
        else case first s0 of
          None \<Rightarrow> (RuneError, 1)
        | Some (sz, lo, hi) \<Rightarrow>
            if length s < sz then (RuneError, 1)
            else let s1 = (of_char (s ! 1) :: nat) in
              if s1 < lo \<or> hi < s1 then (RuneError, 1)
              else if sz \<le> 2 then ((s0 mod 32) * 64 + s1 mod 64, 2)
              else let s2 = (of_char (s ! 2) :: nat) in
                if s2 < 0x80 \<or> 0xBF < s2 then (RuneError, 1)
                else if sz \<le> 3 then ((s0 mod 16) * 4096 + (s1 mod 64) * 64 + s2 mod 64, 3)
                else let s3 = (of_char (s ! 3) :: nat) in
                  if s3 < 0x80 \<or> 0xBF < s3 then (RuneError, 1)
                  else ((s0 mod 8) * 262144 + (s1 mod 64) * 4096 + (s2 mod 64) * 64
                          + s3 mod 64, 4))"

lemma DecodeRuneInString_width:
  "s \<noteq> [] \<Longrightarrow> DecodeRuneInString s = (r, n) \<Longrightarrow> 1 \<le> n"
  by (auto simp: DecodeRuneInString_def Let_def split: if_splits option.splits prod.splits)


lemma DecodeRuneInString_drop:
  assumes "s \<noteq> []" and "(r, n) = DecodeRuneInString s"
  shows "length s - n < length s"
proof -
  have "1 \<le> n"
    using assms DecodeRuneInString_width [of s r n] by simp
  with assms(1) show ?thesis by (cases s) auto
qed

section \<open>Sanitising identifiers\<close>

text \<open>
  \<open>allowedTerraformChars\<close> is the compiled expression \<^verbatim>\<open>[^a-zA-Z0-9_-]\<close>: it matches one rune
  that is none of the letters, digits, underscore and hyphen.
\<close>

definition allowedTerraformChars :: "nat \<Rightarrow> bool" where
  "allowedTerraformChars r \<longleftrightarrow>
     \<not> ((0x61 \<le> r \<and> r \<le> 0x7A) \<or> (0x41 \<le> r \<and> r \<le> 0x5A) \<or> (0x30 \<le> r \<and> r \<le> 0x39)
        \<or> r = 0x5F \<or> r = 0x2D)"

text \<open>
  \<open>re.ReplaceAllString(src, repl)\<close> for an expression that matches exactly one rune: the
  input is read rune by rune (an invalid byte is the rune \<open>RuneError\<close> of width 1), a
  matching rune is replaced by \<open>repl\<close>, any other rune is copied.
\<close>

function ReplaceAllString :: "(nat \<Rightarrow> bool) \<Rightarrow> string \<Rightarrow> string \<Rightarrow> string" where
  "ReplaceAllString re src repl =
     (if src = [] then []
      else case DecodeRuneInString src of (r, n) \<Rightarrow>
        (if re r then repl else take n src) @ ReplaceAllString re (drop n src) repl)"
  by pat_completeness auto
termination
  by (relation "measure (\<lambda>(re, src, repl). length src)")
     (auto simp: DecodeRuneInString_drop)

declare ReplaceAllString.simps [simp del]




text \<open>\<open>strings.ReplaceAll(s, "-", "_")\<close>: every hyphen byte becomes an underscore.\<close>

definition ReplaceAll_hyphen :: "string \<Rightarrow> string" where
  "ReplaceAll_hyphen s = map (\<lambda>c. if c = CHR ''-'' then CHR ''_'' else c) s"

text \<open>
  The local name computed for an identifier (\<open>cleanedID\<close> in the source): the sanitised
  identifier, prefixed with the underscored provider and \<open>_\<close> unless the provider is
  \<open>cloud\<close>.
\<close>

definition cleanedID :: "string \<Rightarrow> string \<Rightarrow> string" where
  "cleanedID provider ident =
     (let c = ReplaceAllString allowedTerraformChars ident ''_''
      in if provider \<noteq> ''cloud'' then ReplaceAll_hyphen provider @ ''_'' @ c else c)"

section \<open>Shell patterns: \<open>filepath.Match\<close>\<close>

text \<open>
  The source filters with \<open>filepath.Match\<close> of the Go standard library. The definitions
  below follow \<^verbatim>\<open>path/filepath/match.go\<close> on a system whose separator is \<open>/\<close> and where the
  backslash escapes: \<open>scanChunk\<close>, \<open>getEsc\<close>, \<open>matchChunk\<close> and \<open>Match\<close>.
\<close>

definition Separator :: char where
  "Separator = CHR ''/''"

definition backslash :: char where
  "backslash = CHR 0x5C"

text \<open>The scanning loop of \<open>scanChunk\<close>: the index at which the chunk ends.\<close>

fun scanIndex :: "bool \<Rightarrow> string \<Rightarrow> nat" where
  "scanIndex inrange [] = 0"
| "scanIndex inrange (c # cs) =
     (if c = backslash then (case cs of [] \<Rightarrow> 1 | d # ds \<Rightarrow> 2 + scanIndex inrange ds)
      else if c = CHR ''['' then 1 + scanIndex True cs
      else if c = CHR '']'' then 1 + scanIndex False cs
      else if c = CHR ''*'' then (if \<not> inrange then 0 else 1 + scanIndex inrange cs)
      else 1 + scanIndex inrange cs)"

definition scanChunk :: "string \<Rightarrow> bool \<times> string \<times> string" where
  "scanChunk pattern =
     (let star = (pattern \<noteq> [] \<and> hd pattern = CHR ''*'');
          p = dropWhile (\<lambda>c. c = CHR ''*'') pattern;
          i = scanIndex False p
      in (star, take i p, drop i p))"

text \<open>\<open>getEsc\<close>: one possibly escaped rune of a character class, and the chunk after it.\<close>

definition getEsc :: "string \<Rightarrow> error + nat \<times> string" where
  "getEsc chunk =
     (if chunk = [] \<or> hd chunk = CHR ''-'' \<or> hd chunk = CHR '']'' then Inl ErrBadPattern
      else let chunk1 = (if hd chunk = backslash then tl chunk else chunk) in
        if chunk1 = [] then Inl ErrBadPattern
        else case DecodeRuneInString chunk1 of (r, n) \<Rightarrow>
          (let nchunk = drop n chunk1 in
           if (r = RuneError \<and> n = 1) \<or> nchunk = [] then Inl ErrBadPattern
           else Inr (r, nchunk)))"

lemma getEsc_length:
  assumes "getEsc chunk = Inr (r, nchunk)"
  shows "length nchunk < length chunk"
proof -
  from assms have ne: "chunk \<noteq> []"
    by (auto simp: getEsc_def)
  define chunk1 where "chunk1 = (if hd chunk = backslash then tl chunk else chunk)"
  from assms have ne1: "chunk1 \<noteq> []"
    by (auto simp: getEsc_def chunk1_def Let_def split: if_splits)
  obtain r' n where d: "DecodeRuneInString chunk1 = (r', n)"
    by (cases "DecodeRuneInString chunk1")
  from assms ne ne1 d have "nchunk = drop n chunk1"
    by (auto simp: getEsc_def chunk1_def Let_def split: if_splits)
  moreover have "1 \<le> n"
    using DecodeRuneInString_width [OF ne1 d] .
  moreover have "length chunk1 \<le> length chunk"
    by (simp add: chunk1_def)
  ultimately show ?thesis using ne1 by (cases chunk1) auto
qed

text \<open>
  The loop over the ranges of a character class in \<open>matchChunk\<close>: \<open>r\<close> is the rune read from
  the name, \<open>match\<close> whether a range has held it, \<open>nrange\<close> the number of ranges parsed.
\<close>

function rangeLoop :: "nat \<Rightarrow> bool \<Rightarrow> nat \<Rightarrow> string \<Rightarrow> error + bool \<times> string" where
  "rangeLoop r match nrange chunk =
     (if chunk \<noteq> [] \<and> hd chunk = CHR '']'' \<and> nrange > 0 then Inr (match, tl chunk)
      else case getEsc chunk of
        Inl err \<Rightarrow> Inl err
      | Inr (lo, chunk1) \<Rightarrow>
          if hd chunk1 = CHR ''-'' then
            (case getEsc (tl chunk1) of
               Inl err \<Rightarrow> Inl err
             | Inr (hi, chunk2) \<Rightarrow>
                 rangeLoop r (match \<or> (lo \<le> r \<and> r \<le> hi)) (nrange + 1) chunk2)
          else rangeLoop r (match \<or> (lo \<le> r \<and> r \<le> lo)) (nrange + 1) chunk1)"
  by pat_completeness auto
termination
proof (relation "measure (\<lambda>(r, match, nrange, chunk). length chunk)", goal_cases)
  case 1
  show ?case by simp
next
  case (2 r match nrange chunk x2 lo chunk1 x2a hi chunk2)
  then have "length chunk1 < length chunk" and "length chunk2 < length (tl chunk1)"
    using getEsc_length [of chunk lo chunk1] getEsc_length [of "tl chunk1" hi chunk2]
    by simp_all
  then show ?case by simp
next
  case (3 r match nrange chunk x2 lo chunk1)
  then show ?case
    using getEsc_length [of chunk lo chunk1] by simp
qed

declare rangeLoop.simps [simp del]

lemma rangeLoop_length:
  "rangeLoop r match nrange chunk = Inr (m, chunk') \<Longrightarrow> length chunk' < length chunk"
proof (induction r match nrange chunk rule: rangeLoop.induct)
  case (1 r match nrange chunk)
  show ?case
  proof (cases "chunk \<noteq> [] \<and> hd chunk = CHR '']'' \<and> nrange > 0")
    case True
    with "1.prems" have "chunk' = tl chunk"
      by (subst (asm) rangeLoop.simps) simp
    with True show ?thesis by (cases chunk) auto
  next
    case False
    with "1.prems" obtain lo chunk1 where g: "getEsc chunk = Inr (lo, chunk1)"
      by (auto simp: rangeLoop.simps [of r match nrange chunk] split: sum.splits)
    have l1: "length chunk1 < length chunk"
      using getEsc_length [OF g] .
    show ?thesis
    proof (cases "hd chunk1 = CHR ''-''")
      case dash: True
      with "1.prems" False g obtain hi chunk2 where
        g2: "getEsc (tl chunk1) = Inr (hi, chunk2)"
        by (auto simp: rangeLoop.simps [of r match nrange chunk] split: sum.splits)
      with "1.prems" False g dash have
        "rangeLoop r (match \<or> (lo \<le> r \<and> r \<le> hi)) (nrange + 1) chunk2 = Inr (m, chunk')"
        by (auto simp: rangeLoop.simps [of r match nrange chunk])
      then have "length chunk' < length chunk2"
        using "1.IH"(1) [OF False _ _ dash _ _ ] g g2 by auto
      moreover have "length chunk2 < length (tl chunk1)"
        using getEsc_length [OF g2] .
      ultimately show ?thesis using l1 by simp
    next
      case nodash: False
      with "1.prems" False g have
        "rangeLoop r (match \<or> (lo \<le> r \<and> r \<le> lo)) (nrange + 1) chunk1 = Inr (m, chunk')"
        by (auto simp: rangeLoop.simps [of r match nrange chunk])
      then have "length chunk' < length chunk1"
        using "1.IH"(2) [OF False _ _ nodash] g by auto
      then show ?thesis using l1 by simp
    qed
  qed
qed

lemma rangeLoop_length_tl:
  "rangeLoop r match nrange (tl chunk) = Inr (m, chunk') \<Longrightarrow> length chunk' < length chunk"
  by (drule rangeLoop_length) simp

lemma rangeLoop_length_tl_tl:
  "rangeLoop r match nrange (tl (tl chunk)) = Inr (m, chunk') \<Longrightarrow>
     length chunk' < length chunk"
  by (drule rangeLoop_length) simp

lemma rangeLoop_length_Nil:
  "rangeLoop r match nrange [] = Inr (m, chunk') \<Longrightarrow> length chunk' < length chunk"
  by (drule rangeLoop_length) simp

text \<open>
  \<open>matchChunk\<close>: \<open>Inl\<close> an error, \<open>Inr None\<close> no match, \<open>Inr (Some rest)\<close> a match that
  leaves \<open>rest\<close> of the name. The flag \<open>failed\<close> is the variable of that name in the source:
  once set, the chunk is still read to its end to check that it is well formed.
\<close>

function matchChunk :: "bool \<Rightarrow> string \<Rightarrow> string \<Rightarrow> error + string option" where
  "matchChunk failed chunk s =
     (if chunk = [] then (if failed then Inr None else Inr (Some s))
      else let failed1 = (failed \<or> s = []) in
        if hd chunk = CHR ''['' then
          (case (if \<not> failed1 then (case DecodeRuneInString s of (r, n) \<Rightarrow> (r, drop n s))
                 else (0, s)) of
             (r, s1) \<Rightarrow>
               (case (if tl chunk \<noteq> [] \<and> hd (tl chunk) = CHR ''^''
                      then (True, tl (tl chunk)) else (False, tl chunk)) of
                  (negated, chunk2) \<Rightarrow>
                    (case rangeLoop r False 0 chunk2 of
                       Inl err \<Rightarrow> Inl err
                     | Inr (match, chunk3) \<Rightarrow>
                         matchChunk (failed1 \<or> match = negated) chunk3 s1)))
        else if hd chunk = CHR ''?'' then
          (if \<not> failed1
           then matchChunk (hd s = Separator) (tl chunk) (drop (snd (DecodeRuneInString s)) s)
           else matchChunk failed1 (tl chunk) s)
        else if hd chunk = backslash then
          (if tl chunk = [] then Inl ErrBadPattern
           else if \<not> failed1
             then matchChunk (hd (tl chunk) \<noteq> hd s) (tl (tl chunk)) (tl s)
             else matchChunk failed1 (tl (tl chunk)) s)
        else
          (if \<not> failed1
           then matchChunk (hd chunk \<noteq> hd s) (tl chunk) (tl s)
           else matchChunk failed1 (tl chunk) s))"
  by pat_completeness auto
termination
  apply (relation "measure (\<lambda>(failed, chunk, s). length chunk)")
  apply (auto simp: Suc_le_eq split: if_splits
           intro: rangeLoop_length_tl rangeLoop_length_tl_tl rangeLoop_length_Nil)
  done

declare matchChunk.simps [simp del]

lemma scanIndex_pos:
  "c \<noteq> CHR ''*'' \<Longrightarrow> 0 < scanIndex inrange (c # cs)"
  by (auto split: list.splits)

lemma scanChunk_length:
  assumes "pattern \<noteq> []" and "scanChunk pattern = (star, chunk, rest)"
  shows "length rest < length pattern"
proof -
  define p where "p = dropWhile (\<lambda>c. c = CHR ''*'') pattern"
  have rest: "rest = drop (scanIndex False p) p"
    using assms(2) by (simp add: scanChunk_def p_def Let_def)
  obtain c cs where pat: "pattern = c # cs"
    using assms(1) by (cases pattern) auto
  show ?thesis
  proof (cases "c = CHR ''*''")
    case True
    then have "p = dropWhile (\<lambda>c. c = CHR ''*'') cs"
      by (simp add: p_def pat)
    then have "length p \<le> length cs"
      by (simp add: length_dropWhile_le)
    then show ?thesis by (simp add: rest pat)
  next
    case False
    then have "p = c # cs" by (simp add: p_def pat)
    with False show ?thesis
      using scanIndex_pos [of c False cs] by (simp add: rest pat)
  qed
qed

text \<open>
  The loop of \<open>Match\<close> that runs after a star: it looks for a match of the chunk after
  skipping one more byte of the name at each turn, and never skips a separator. \<open>lastChunk\<close>
  says that the chunk is the final one of the pattern. \<open>Inr (Some t)\<close> is the jump back to
  the outer loop with the name \<open>t\<close>, \<open>Inr None\<close> the end of the loop.
\<close>

fun starLoop :: "string \<Rightarrow> bool \<Rightarrow> string \<Rightarrow> error + string option" where
  "starLoop chunk lastChunk [] = Inr None"
| "starLoop chunk lastChunk (c # name) =
     (if c = Separator then Inr None
      else case matchChunk False chunk name of
        Inl err \<Rightarrow> Inl err
      | Inr (Some t) \<Rightarrow> if lastChunk \<and> t \<noteq> [] then starLoop chunk lastChunk name else Inr (Some t)
      | Inr None \<Rightarrow> starLoop chunk lastChunk name)"

text \<open>
  \<open>Match\<close>: when a chunk does not match, and no later position after a star does, the
  result is no match and no error; the rest of the pattern is not read.
\<close>

function Match :: "string \<Rightarrow> string \<Rightarrow> error + bool" where
  "Match pattern name =
     (if pattern = [] then Inr (name = [])
      else case scanChunk pattern of (star, chunk, rest) \<Rightarrow>
        if star \<and> chunk = [] then Inr (Separator \<notin> set name)
        else case matchChunk False chunk name of
          Inl err \<Rightarrow> Inl err
        | Inr r \<Rightarrow>
            if r \<noteq> None \<and> (the r = [] \<or> rest \<noteq> []) then Match rest (the r)
            else if star then
              (case starLoop chunk (rest = []) name of
                 Inl err \<Rightarrow> Inl err
               | Inr (Some t) \<Rightarrow> Match rest t
               | Inr None \<Rightarrow> Inr False)
            else Inr False)"
  by pat_completeness auto
termination
  by (relation "measure (\<lambda>(pattern, name). length pattern)")
     (auto intro: scanChunk_length [OF _ sym])

declare Match.simps [simp del]

text \<open>A byte that has no special meaning in a pattern.\<close>

definition plain :: "char \<Rightarrow> bool" where
  "plain c \<longleftrightarrow> c \<noteq> CHR ''*'' \<and> c \<noteq> CHR ''?'' \<and> c \<noteq> CHR ''['' \<and> c \<noteq> backslash"

section \<open>The resource filter\<close>

text \<open>
  A resource descriptor (\<open>common.Resource\<close>), reduced to the two fields the generator reads:
  its name and its lister, which is absent (\<open>nil\<close>) for some types. A lister is called with
  the context, the client and the lister data of the pass, here one value of type \<open>'c\<close>, and
  returns identifiers or an error.
\<close>

record 'c Resource =
  Name :: string
  ListIDsFunc :: "('c \<Rightarrow> error + string list) option"

text \<open>
  The first loop of \<open>filterResources\<close>: every entry must contain a dot, and the text before
  its first dot (\<open>strings.Split(included, ".")[0]\<close>) is an allowed type pattern.
\<close>

fun allowedResourceTypes :: "string list \<Rightarrow> error + string list" where
  "allowedResourceTypes [] = Inr []"
| "allowedResourceTypes (included # rest) =
     (if CHR ''.'' \<notin> set included then Inl (ErrNotInFormat included)
      else case allowedResourceTypes rest of
        Inl err \<Rightarrow> Inl err
      | Inr types \<Rightarrow> Inr (takeWhile (\<lambda>c. c \<noteq> CHR ''.'') included # types))"

text \<open>
  The inner loop of \<open>filterResources\<close> for one resource: the allowed type patterns are
  tried in order, an error of \<open>Match\<close> ends the function, the first match keeps the resource.
\<close>

fun matchesAllowedType :: "string list \<Rightarrow> string \<Rightarrow> error + bool" where
  "matchesAllowedType [] name = Inr False"
| "matchesAllowedType (allowedResourceType # rest) name =
     (case Match allowedResourceType name of
        Inl err \<Rightarrow> Inl err
      | Inr matched \<Rightarrow> if matched then Inr True else matchesAllowedType rest name)"

fun filterLoop :: "string list \<Rightarrow> 'c Resource list \<Rightarrow> error + 'c Resource list" where
  "filterLoop types [] = Inr []"
| "filterLoop types (resource # resources) =
     (case matchesAllowedType types (Name resource) of
        Inl err \<Rightarrow> Inl err
      | Inr matched \<Rightarrow>
          (case filterLoop types resources of
             Inl err \<Rightarrow> Inl err
           | Inr filtered \<Rightarrow> Inr (if matched then resource # filtered else filtered)))"

definition filterResources ::
  "'c Resource list \<Rightarrow> string list \<Rightarrow> error + 'c Resource list" where
  "filterResources resources includedResources =
     (if includedResources = [] then Inr resources
      else case allowedResourceTypes includedResources of
        Inl err \<Rightarrow> Inl err
      | Inr types \<Rightarrow> filterLoop types resources)"

fun filterByNameLoop :: "string \<Rightarrow> string list \<Rightarrow> error + bool" where
  "filterByNameLoop full [] = Inr False"
| "filterByNameLoop full (included # rest) =
     (case Match included full of
        Inl err \<Rightarrow> Inl err
      | Inr matched \<Rightarrow> if matched then Inr True else filterByNameLoop full rest)"

definition filterResourceByName :: "string \<Rightarrow> string \<Rightarrow> string list \<Rightarrow> error + bool" where
  "filterResourceByName resourceType resourceName includedResources =
     (if includedResources = [] then Inr True
      else filterByNameLoop (resourceType @ ''.'' @ resourceName) includedResources)"

section \<open>Import blocks\<close>

text \<open>
  Modelled from the spec: the helper \<open>traversal(root, attr)\<close> is defined outside the listed
  source. The spec describes the \<open>to\<close> attribute as the resource address \<open>type.name\<close> and
  the \<open>provider\<close> attribute as an alias traversal, so a traversal is kept as the pair of its
  root and attribute names, \<open>root\<close> is its first segment and \<open>address\<close> is its text.
  \<open>filepath.Join(dir, file)\<close> is kept as a constructor as well.
\<close>

datatype Traversal = traversal string string

fun address :: "Traversal \<Rightarrow> string" where
  "address (traversal root attr) = root @ ''.'' @ attr"

fun root :: "Traversal \<Rightarrow> string" where
  "root (traversal r attr) = r"

datatype path = Join string string

text \<open>
  The blocks the generator writes: an \<open>import\<close> block with its \<open>to\<close>, \<open>id\<close> and optional
  \<open>provider\<close> attributes, and the \<open>terraform\<close> block that requires the provider with a
  source and a version.
\<close>

datatype Block =
    ImportBlock (to_attr: Traversal) (id_attr: string) (provider_attr: "Traversal option")
  | TerraformBlock string string

text \<open>
  The body of the loop over the identifiers of one type, for one identifier. The \<open>id\<close>
  attribute is set to \<open>cty.StringVal(id)\<close>: the library keeps a string normalised to NFC
  and writes invalid UTF-8 replaced, so the attribute holds \<open>stringVal\<close> of the identifier,
  where \<open>stringVal\<close> stands for that library function.
\<close>

definition importBlock :: "(string \<Rightarrow> string) \<Rightarrow> string \<Rightarrow> string \<Rightarrow> string \<Rightarrow> Block" where
  "importBlock stringVal resourceName provider ident =
     ImportBlock (traversal resourceName (cleanedID provider ident)) (stringVal ident)
       (if provider \<noteq> [] then Some (traversal ''grafana'' provider) else None)"

fun blocksLoop ::
  "(string \<Rightarrow> string) \<Rightarrow> string \<Rightarrow> string \<Rightarrow> string list \<Rightarrow> Block list \<Rightarrow> string list
     \<Rightarrow> error + Block list" where
  "blocksLoop stringVal resourceName provider includedResources blocks [] = Inr blocks"
| "blocksLoop stringVal resourceName provider includedResources blocks (ident # ids) =
     (case filterResourceByName resourceName (cleanedID provider ident) includedResources of
        Inl err \<Rightarrow> Inl err
      | Inr matched \<Rightarrow>
          if \<not> matched
          then blocksLoop stringVal resourceName provider includedResources blocks ids
          else blocksLoop stringVal resourceName provider includedResources
                 (blocks @ [importBlock stringVal resourceName provider ident]) ids)"

text \<open>The value a task sends on the channel.\<close>

record 'c result =
  resource :: "'c Resource"
  blocks :: "Block list"
  err :: "error option"

text \<open>
  The body of the goroutine started for one resource, up to the value it sends; \<open>call\<close>
  stands for the context, client and lister data handed to the lister.
\<close>

definition task ::
  "(string \<Rightarrow> string) \<Rightarrow> 'c \<Rightarrow> string \<Rightarrow> string list \<Rightarrow> 'c Resource \<Rightarrow> 'c result" where
  "task stringVal call provider includedResources res =
     (case ListIDsFunc res of
        None \<Rightarrow> \<lparr>resource = res, blocks = [], err = None\<rparr>
      | Some lister \<Rightarrow>
          (case lister call of
             Inl e \<Rightarrow> \<lparr>resource = res, blocks = [], err = Some e\<rparr>
           | Inr ids \<Rightarrow>
               (case blocksLoop stringVal (Name res) provider includedResources [] ids of
                  Inl e \<Rightarrow> \<lparr>resource = res, blocks = [], err = Some e\<rparr>
                | Inr bs \<Rightarrow> \<lparr>resource = res, blocks = bs, err = None\<rparr>)))"

section \<open>One pass: \<open>generateImportBlocks\<close>\<close>

text \<open>
  The tasks run concurrently and send their results on a channel buffered for all of
  them. Each task calls \<open>wg.Done()\<close> and only then sends, so \<open>wg.Wait()\<close> can return and
  \<open>close(results)\<close> run while sends are still to come. A send on the closed channel
  panics, which ends the process; the result it carried never reaches the aggregator. What
  the aggregator reads therefore depends on the schedule, a parameter of the model:
  \<^item> \<open>order\<close>: the order in which the tasks reach their send, as a list of picks, each
    choosing (modulo the number left) which of the remaining tasks is next; with no picks
    left, the rest follow in launch order;
  \<^item> \<open>lateSends\<close>: how many tasks, the last ones in that order, reach their send only after
    the channel has been closed;
  \<^item> \<open>panicAfter\<close>: when a send is late, the number of external calls the aggregator still
    makes before the panic ends the process, or \<open>None\<close> when the pass returns first.
\<close>

record schedule =
  order :: "nat list"
  lateSends :: nat
  panicAfter :: "nat option"

fun deliver :: "nat list \<Rightarrow> 'a list \<Rightarrow> 'a list" where
  "deliver picks [] = []"
| "deliver [] xs = xs"
| "deliver (p # picks) xs =
     (let i = p mod length xs
      in xs ! i # deliver picks (take i xs @ drop (Suc i) xs))"

text \<open>The results on the channel when it is closed, in the order the aggregator reads them.\<close>

definition received :: "schedule \<Rightarrow> 'a list \<Rightarrow> 'a list" where
  "received sched results =
     (let sent = deliver (order sched) results
      in take (length sent - lateSends sched) sent)"

text \<open>
  The loop that drains the channel: the first result with an error ends the pass, the other
  results are appended to \<open>resultsSlice\<close>.
\<close>

fun collectResults :: "'c result list \<Rightarrow> error + 'c result list" where
  "collectResults [] = Inr []"
| "collectResults (r # rs) =
     (case err r of
        Some e \<Rightarrow> Inl (ErrFailedToGenerate (Name (resource r)) e)
      | None \<Rightarrow>
          (case collectResults rs of
             Inl e \<Rightarrow> Inl e
           | Inr resultsSlice \<Rightarrow> Inr (r # resultsSlice)))"

text \<open>
  \<open>sort.Slice\<close> by resource name, with the byte-wise order of Go strings. The library sort
  is not stable; the model sorts by insertion, and lemma \<open>sortResults_unique\<close> below shows
  that for distinct names every sorting procedure returns this list.
\<close>

definition sortResults :: "'c result list \<Rightarrow> 'c result list" where
  "sortResults rs = sort_key (\<lambda>r. Name (resource r)) rs"

text \<open>
  What the pass does to the outside world, in order: a lister call (recorded in launch
  order, the calls being concurrent), and the calls of \<open>writeBlocks\<close>, \<open>runTerraform\<close> and
  \<open>sortResourcesFile\<close>. The remaining events belong to \<open>Generate\<close>.
\<close>

datatype arg = Arg string | GenerateConfigOut path
  \<comment> \<open>\<open>GenerateConfigOut p\<close> is the argument \<^verbatim>\<open>-generate-config-out=\<close> followed by \<open>p\<close>\<close>

datatype event =
    ListIDs string
  | WriteBlocks path "Block list"
  | RunTerraform string "arg list"
  | SortResourcesFile path
  | Stat string
  | RemoveAll string
  | MkdirAll string
  | GenerateCloudResources
  | GenerateGrafanaResources string
  | ConvertToTFJSON string

text \<open>
  The functions of the package, of the operating system and of the libraries that the two
  entry points call and whose bodies are elsewhere: each is a parameter giving the error it
  returns, if any. \<open>StringVal\<close> is \<open>cty.StringVal\<close>, as a function from the bytes given to the
  bytes the attribute holds.
\<close>

record stack =
  managementKey :: string
  url :: string
  slug :: string
  smURL :: string
  smToken :: string

record externals =
  os_Stat :: "string \<Rightarrow> error option"
  os_RemoveAll :: "string \<Rightarrow> error option"
  os_MkdirAll :: "string \<Rightarrow> error option"
  writeBlocks :: "path \<Rightarrow> Block list \<Rightarrow> error option"
  runTerraform :: "string \<Rightarrow> arg list \<Rightarrow> error option"
  sortResourcesFile :: "path \<Rightarrow> error option"
  generateCloudResources :: "error + stack list"
  generateGrafanaResources ::
    "string \<Rightarrow> string \<Rightarrow> string \<Rightarrow> bool \<Rightarrow> string \<Rightarrow> string \<Rightarrow> string \<Rightarrow> string list
       \<Rightarrow> error option"
  convertToTFJSON :: "string \<Rightarrow> error option"
  StringVal :: "string \<Rightarrow> string"

definition generatedFilename :: "string \<Rightarrow> string \<Rightarrow> string \<Rightarrow> path" where
  "generatedFilename outPath provider suffix =
     (if provider = [] then Join outPath suffix
      else Join outPath (provider @ ''-'' @ suffix))"

text \<open>The lister calls of a pass: one for each selected resource that has a lister.\<close>

definition listerCalls :: "'c Resource list \<Rightarrow> event list" where
  "listerCalls filtered =
     map (\<lambda>r. ListIDs (Name r)) (filter (\<lambda>r. ListIDsFunc r \<noteq> None) filtered)"

text \<open>The block lists handed to \<open>writeBlocks\<close> in a sequence of events.\<close>

fun written :: "event \<Rightarrow> Block list option" where
  "written (WriteBlocks file bs) = Some bs"
| "written ev = None"

definition importsWritten :: "event list \<Rightarrow> Block list list" where
  "importsWritten evs = List.map_filter written evs"

text \<open>
  The aggregator, from the loop over the channel to the end of the function, on the
  results it reads.
\<close>

definition aggregate ::
  "externals \<Rightarrow> string \<Rightarrow> string \<Rightarrow> 'c result list \<Rightarrow> error option \<times> event list" where
  "aggregate ext outPath provider results =
     (case collectResults results of
        Inl e \<Rightarrow> (Some e, [])
      | Inr resultsSlice \<Rightarrow>
          (let allBlocks = concat (map blocks (sortResults resultsSlice));
               imports = generatedFilename outPath provider ''imports.tf'';
               resourcesFile = generatedFilename outPath provider ''resources.tf'';
               plan = [Arg ''plan'', GenerateConfigOut resourcesFile]
           in case writeBlocks ext imports allBlocks of
                Some e \<Rightarrow> (Some e, [WriteBlocks imports allBlocks])
              | None \<Rightarrow>
                  (case runTerraform ext outPath plan of
                     Some e \<Rightarrow>
                       (Some (ErrFailedToGenerateResources e),
                        [WriteBlocks imports allBlocks, RunTerraform outPath plan])
                   | None \<Rightarrow>
                       (sortResourcesFile ext resourcesFile,
                        [WriteBlocks imports allBlocks, RunTerraform outPath plan,
                         SortResourcesFile resourcesFile]))))"

text \<open>
  The pass. Every lister is called before its task calls \<open>wg.Done()\<close>, hence before the
  channel is closed. When a result is missing from the channel, its send is late: the
  pass ends with the panic after \<open>panicAfter\<close> external calls of the aggregator, or runs to
  its end on the results it has read.
\<close>

definition generateImportBlocks ::
  "externals \<Rightarrow> schedule \<Rightarrow> 'c \<Rightarrow> 'c Resource list \<Rightarrow> string \<Rightarrow> string \<Rightarrow> string list
     \<Rightarrow> error option \<times> event list" where
  "generateImportBlocks ext sched call resources outPath provider includedResources =
     (case filterResources resources includedResources of
        Inl e \<Rightarrow> (Some e, [])
      | Inr filtered \<Rightarrow>
          (let results = map (task (StringVal ext) call provider includedResources) filtered;
               got = received sched results;
               finish = aggregate ext outPath provider got
           in if length got < length results then
                (case panicAfter sched of
                   None \<Rightarrow> (fst finish, listerCalls filtered @ snd finish)
                 | Some j \<Rightarrow>
                     (Some PanicSendOnClosedChannel,
                      listerCalls filtered @ take j (snd finish)))
              else (fst finish, listerCalls filtered @ snd finish)))"

section \<open>The entry point: \<open>Generate\<close>\<close>

datatype OutputFormat = OutputFormatHCL | OutputFormatJSON | OutputFormatCrossplane

record GrafanaConfig =
  Auth :: string
  URL :: string

text \<open>
  The fields of \<open>Config\<close> that \<open>Generate\<close> reads; \<open>Cloud\<close> says whether the cloud
  configuration is present.
\<close>

record Config =
  OutputDir :: string
  Clobber :: bool
  ProviderVersion :: string
  Cloud :: bool
  Grafana :: "GrafanaConfig option"
  Format :: OutputFormat
  IncludeResources :: "string list"

text \<open>
  \<open>Generate\<close> returns an error or \<open>nil\<close>, or ends the process with \<open>log.Fatal\<close>.
\<close>

datatype outcome = Return "error option" | Fatal error

definition after :: "event list \<Rightarrow> outcome \<times> event list \<Rightarrow> outcome \<times> event list" where
  "after evs r = (fst r, evs @ snd r)"

definition TrimPrefix_v :: "string \<Rightarrow> string" where
  "TrimPrefix_v s = (case s of [] \<Rightarrow> s | c # rest \<Rightarrow> if c = CHR ''v'' then rest else s)"

definition convertFormat :: "externals \<Rightarrow> Config \<Rightarrow> outcome \<times> event list" where
  "convertFormat ext cfg =
     (if Format cfg = OutputFormatJSON
        then (Return (convertToTFJSON ext (OutputDir cfg)), [ConvertToTFJSON (OutputDir cfg)])
      else if Format cfg = OutputFormatCrossplane then (Return (Some ErrCrossplane), [])
      else (Return None, []))"

definition grafanaPass :: "externals \<Rightarrow> Config \<Rightarrow> outcome \<times> event list" where
  "grafanaPass ext cfg =
     (case Grafana cfg of
        None \<Rightarrow> convertFormat ext cfg
      | Some g \<Rightarrow>
          after [GenerateGrafanaResources []]
            (case generateGrafanaResources ext (Auth g) (URL g) [] True (OutputDir cfg) [] []
                    (IncludeResources cfg) of
               Some e \<Rightarrow> (Return (Some e), [])
             | None \<Rightarrow> convertFormat ext cfg))"

fun stacksLoop :: "externals \<Rightarrow> Config \<Rightarrow> stack list \<Rightarrow> outcome \<times> event list" where
  "stacksLoop ext cfg [] = grafanaPass ext cfg"
| "stacksLoop ext cfg (st # stacks) =
     after [GenerateGrafanaResources (''stack-'' @ slug st)]
       (case generateGrafanaResources ext (managementKey st) (url st) (''stack-'' @ slug st)
               False (OutputDir cfg) (smURL st) (smToken st) (IncludeResources cfg) of
          Some e \<Rightarrow> (Return (Some e), [])
        | None \<Rightarrow> stacksLoop ext cfg stacks)"

definition cloudPass :: "externals \<Rightarrow> Config \<Rightarrow> outcome \<times> event list" where
  "cloudPass ext cfg =
     (if Cloud cfg then
        after [GenerateCloudResources]
          (case generateCloudResources ext of
             Inl e \<Rightarrow> (Return (Some e), [])
           | Inr stacks \<Rightarrow> stacksLoop ext cfg stacks)
      else grafanaPass ext cfg)"

text \<open>The part of \<open>Generate\<close> from \<open>os.MkdirAll\<close> on.\<close>

definition createAndGenerate :: "externals \<Rightarrow> Config \<Rightarrow> outcome \<times> event list" where
  "createAndGenerate ext cfg =
     after [MkdirAll (OutputDir cfg)]
       (case os_MkdirAll ext (OutputDir cfg) of
          Some e \<Rightarrow> (Return (Some (ErrFailedToCreate (OutputDir cfg) e)), [])
        | None \<Rightarrow>
            (let providerFile = Join (OutputDir cfg) ''provider.tf'';
                 providerBlock =
                   [TerraformBlock (StringVal ext ''grafana/grafana'')
                      (StringVal ext (TrimPrefix_v (ProviderVersion cfg)))]
             in after [WriteBlocks providerFile providerBlock]
                  (case writeBlocks ext providerFile providerBlock of
                     Some e \<Rightarrow> (Fatal e, [])
                   | None \<Rightarrow>
                       after [RunTerraform (OutputDir cfg) [Arg ''init'']]
                         (case runTerraform ext (OutputDir cfg) [Arg ''init''] of
                            Some e \<Rightarrow> (Return (Some (ErrTerraformInit e)), [])
                          | None \<Rightarrow> cloudPass ext cfg))))"

definition Generate :: "externals \<Rightarrow> Config \<Rightarrow> outcome \<times> event list" where
  "Generate ext cfg =
     after [Stat (OutputDir cfg)]
       (let err = os_Stat ext (OutputDir cfg) in
        if err = None \<and> Clobber cfg then
          after [RemoveAll (OutputDir cfg)]
            (case os_RemoveAll ext (OutputDir cfg) of
               Some e \<Rightarrow> (Return (Some (ErrFailedToDelete (OutputDir cfg) e)), [])
             | None \<Rightarrow> createAndGenerate ext cfg)
        else if err = None \<and> \<not> Clobber cfg then
          (Return (Some (ErrOutputDirExists (OutputDir cfg))), [])
        else createAndGenerate ext cfg)"

section \<open>Sample inputs\<close>

text \<open>
  Catalog entries whose listers return fixed identifiers or fail, collaborators that always
  succeed, and schedules.
\<close>

definition dashboard :: "unit Resource" where
  "dashboard = \<lparr>Name = ''dashboard'', ListIDsFunc = Some (\<lambda>_. Inr [''abc''])\<rparr>"

definition folder :: "unit Resource" where
  "folder = \<lparr>Name = ''folder'', ListIDsFunc = Some (\<lambda>_. Inr [''xyz''])\<rparr>"


definition failingA :: "unit Resource" where
  "failingA = \<lparr>Name = ''alpha'', ListIDsFunc = Some (\<lambda>_. Inl (ErrExternal ''alpha down''))\<rparr>"

definition failingB :: "unit Resource" where
  "failingB = \<lparr>Name = ''beta'', ListIDsFunc = Some (\<lambda>_. Inl (ErrExternal ''beta down''))\<rparr>"

definition zebra :: "unit Resource" where
  "zebra = \<lparr>Name = ''zebra'', ListIDsFunc = Some (\<lambda>_. Inr [''b2'', ''a1'', ''c3''])\<rparr>"

definition apple :: "unit Resource" where
  "apple = \<lparr>Name = ''apple'', ListIDsFunc = Some (\<lambda>_. Inr [''z'', ''y''])\<rparr>"

definition emptyFolder :: "unit Resource" where
  "emptyFolder = \<lparr>Name = ''folder'', ListIDsFunc = Some (\<lambda>_. Inr [])\<rparr>"


text \<open>
  The value of \<open>cty.StringVal\<close> on the strings of the examples: ASCII text is left as it is,
  and the letter \<open>e\<close> followed by the combining acute accent (bytes 65 CC 81) is composed
  to the single letter (bytes C3 A9), as normalisation to NFC does.
\<close>

definition sampleStringVal :: "string \<Rightarrow> string" where
  "sampleStringVal s =
     (if s = [CHR 0x65, CHR 0xCC, CHR 0x81] then [CHR 0xC3, CHR 0xA9] else s)"

definition succeeding :: externals where
  "succeeding =
     \<lparr>os_Stat = (\<lambda>_. None), os_RemoveAll = (\<lambda>_. None), os_MkdirAll = (\<lambda>_. None),
      writeBlocks = (\<lambda>_ _. None), runTerraform = (\<lambda>_ _. None),
      sortResourcesFile = (\<lambda>_. None), generateCloudResources = Inr [],
      generateGrafanaResources = (\<lambda>_ _ _ _ _ _ _ _. None), convertToTFJSON = (\<lambda>_. None),
      StringVal = sampleStringVal\<rparr>"

text \<open>
  Schedules: every send before the close, in launch order or with the second task first;
  and the last task sending late, the pass returning before the panic or the panic
  coming after one external call of the aggregator.
\<close>

definition inOrder :: schedule where
  "inOrder = \<lparr>order = [], lateSends = 0, panicAfter = None\<rparr>"

definition secondFirst :: schedule where
  "secondFirst = \<lparr>order = [1], lateSends = 0, panicAfter = None\<rparr>"

definition oneLate :: schedule where
  "oneLate = \<lparr>order = [], lateSends = 1, panicAfter = None\<rparr>"

definition oneLatePanic :: schedule where
  "oneLatePanic = \<lparr>order = [], lateSends = 1, panicAfter = Some 1\<rparr>"

definition sampleConfig :: Config where
  "sampleConfig =
     \<lparr>OutputDir = ''out'', Clobber = True, ProviderVersion = ''v3.0.0'', Cloud = False,
      Grafana = None, Format = OutputFormatHCL, IncludeResources = []\<rparr>"

section \<open>Entries without a dot\<close>

lemma allowedResourceTypes_no_dot:
  "find (\<lambda>p. CHR ''.'' \<notin> set p) includedResources = Some q \<Longrightarrow>
     allowedResourceTypes includedResources = Inl (ErrNotInFormat q)"
  by (induction includedResources) auto

lemma filterResources_no_dot:
  assumes "find (\<lambda>p. CHR ''.'' \<notin> set p) includedResources = Some q"
  shows "filterResources resources includedResources = Inl (ErrNotInFormat q)"
proof -
  from assms have "includedResources \<noteq> []" by auto
  then show ?thesis
    by (simp add: filterResources_def allowedResourceTypes_no_dot [OF assms])
qed

lemma generateImportBlocks_filter_error:
  "filterResources resources includedResources = Inl e \<Longrightarrow>
     generateImportBlocks ext sched call resources outPath provider includedResources
       = (Some e, [])"
  by (simp add: generateImportBlocks_def)

text \<open>
  C6. An inclusion list with an entry that has no dot makes \<open>filterResources\<close> fail with
  the error "included resource ... is not in the format <type>.<name>" for the first such
  entry; the pass returns that error and has done nothing, so no lister was called. For the
  empty inclusion list \<open>filterResources\<close> returns the catalog as it is.
\<close>

theorem filterResources_entry_without_dot:
  "(p \<in> set includedResources \<and> CHR ''.'' \<notin> set p \<longrightarrow>
      (\<exists>q. find (\<lambda>p. CHR ''.'' \<notin> set p) includedResources = Some q
         \<and> filterResources resources includedResources = Inl (ErrNotInFormat q)
         \<and> generateImportBlocks ext sched call resources outPath provider includedResources
             = (Some (ErrNotInFormat q), [])))
   \<and> filterResources resources [] = Inr resources"
proof (intro conjI impI)
  assume "p \<in> set includedResources \<and> CHR ''.'' \<notin> set p"
  then obtain q where q: "find (\<lambda>p. CHR ''.'' \<notin> set p) includedResources = Some q"
    by (cases "find (\<lambda>p. CHR ''.'' \<notin> set p) includedResources")
       (auto simp: find_None_iff)
  have "filterResources resources includedResources = Inl (ErrNotInFormat q)"
    by (rule filterResources_no_dot [OF q])
  with q show "\<exists>q. find (\<lambda>p. CHR ''.'' \<notin> set p) includedResources = Some q
         \<and> filterResources resources includedResources = Inl (ErrNotInFormat q)
         \<and> generateImportBlocks ext sched call resources outPath provider includedResources
             = (Some (ErrNotInFormat q), [])"
    by (auto simp: generateImportBlocks_filter_error)
next
  show "filterResources resources [] = Inr resources"
    by (simp add: filterResources_def)
qed

theorem filterResources_entry_without_dot_witness:
  "''dashboard'' \<in> set [''folder.*'', ''dashboard'', ''x'']
   \<and> CHR ''.'' \<notin> set ''dashboard''
   \<and> filterResources [dashboard, folder] [''folder.*'', ''dashboard'', ''x'']
       = Inl (ErrNotInFormat ''dashboard'')
   \<and> generateImportBlocks succeeding inOrder () [dashboard, folder] ''out'' []
        [''folder.*'', ''dashboard'', ''x''] = (Some (ErrNotInFormat ''dashboard''), [])
   \<and> filterResources [dashboard, folder] [] = Inr [dashboard, folder]"
  using filterResources_entry_without_dot [of "''dashboard''"
      "[''folder.*'', ''dashboard'', ''x'']" "[dashboard, folder]" succeeding inOrder "()"
      "''out''" "[]"]
  by simp

section \<open>Preparing the output directory\<close>

lemma createAndGenerate_events:
  "\<exists>out evs. createAndGenerate ext cfg = (out, MkdirAll (OutputDir cfg) # evs)"
  by (simp add: createAndGenerate_def after_def)

text \<open>
  C8. \<open>Generate\<close> begins with \<open>os.Stat\<close> on the output directory. If the directory
  exists and \<open>Clobber\<close> is set, the directory is removed and, when the removal succeeds,
  created again as the next step (a failed removal is returned as an error). If it exists
  and \<open>Clobber\<close> is not set, \<open>Generate\<close> returns the error "output dir ... already exists"
  and has done nothing but the \<open>os.Stat\<close>. If \<open>os.Stat\<close> fails, the directory is created
  as the next step, with no removal.
\<close>

theorem Generate_directory_preparation:
  "(os_Stat ext (OutputDir cfg) = None \<and> Clobber cfg \<and> os_RemoveAll ext (OutputDir cfg) = None
      \<longrightarrow> (\<exists>out evs. Generate ext cfg
             = (out, Stat (OutputDir cfg) # RemoveAll (OutputDir cfg)
                       # MkdirAll (OutputDir cfg) # evs)))
   \<and> (os_Stat ext (OutputDir cfg) = None \<and> Clobber cfg \<and> os_RemoveAll ext (OutputDir cfg) = Some e
      \<longrightarrow> Generate ext cfg
            = (Return (Some (ErrFailedToDelete (OutputDir cfg) e)),
               [Stat (OutputDir cfg), RemoveAll (OutputDir cfg)]))
   \<and> (os_Stat ext (OutputDir cfg) = None \<and> \<not> Clobber cfg
      \<longrightarrow> Generate ext cfg
            = (Return (Some (ErrOutputDirExists (OutputDir cfg))), [Stat (OutputDir cfg)]))
   \<and> (os_Stat ext (OutputDir cfg) \<noteq> None
      \<longrightarrow> (\<exists>out evs. Generate ext cfg
             = (out, Stat (OutputDir cfg) # MkdirAll (OutputDir cfg) # evs)))"
proof (intro conjI impI)
  assume "os_Stat ext (OutputDir cfg) = None \<and> Clobber cfg
            \<and> os_RemoveAll ext (OutputDir cfg) = None"
  then show "\<exists>out evs. Generate ext cfg
      = (out, Stat (OutputDir cfg) # RemoveAll (OutputDir cfg) # MkdirAll (OutputDir cfg) # evs)"
    using createAndGenerate_events [of ext cfg]
    by (auto simp: Generate_def after_def)
next
  assume "os_Stat ext (OutputDir cfg) = None \<and> Clobber cfg
            \<and> os_RemoveAll ext (OutputDir cfg) = Some e"
  then show "Generate ext cfg
      = (Return (Some (ErrFailedToDelete (OutputDir cfg) e)),
         [Stat (OutputDir cfg), RemoveAll (OutputDir cfg)])"
    by (simp add: Generate_def after_def)
next
  assume "os_Stat ext (OutputDir cfg) = None \<and> \<not> Clobber cfg"
  then show "Generate ext cfg
      = (Return (Some (ErrOutputDirExists (OutputDir cfg))), [Stat (OutputDir cfg)])"
    by (simp add: Generate_def after_def)
next
  assume "os_Stat ext (OutputDir cfg) \<noteq> None"
  then show "\<exists>out evs. Generate ext cfg
      = (out, Stat (OutputDir cfg) # MkdirAll (OutputDir cfg) # evs)"
    using createAndGenerate_events [of ext cfg]
    by (auto simp: Generate_def after_def)
qed

theorem Generate_directory_preparation_witness:
  "os_Stat succeeding (OutputDir sampleConfig) = None \<and> Clobber sampleConfig
   \<and> os_RemoveAll succeeding (OutputDir sampleConfig) = None
   \<and> (\<exists>out evs. Generate succeeding sampleConfig
         = (out, Stat ''out'' # RemoveAll ''out'' # MkdirAll ''out'' # evs))
   \<and> os_Stat succeeding (OutputDir (sampleConfig\<lparr>Clobber := False\<rparr>)) = None
   \<and> \<not> Clobber (sampleConfig\<lparr>Clobber := False\<rparr>)
   \<and> Generate succeeding (sampleConfig\<lparr>Clobber := False\<rparr>)
       = (Return (Some (ErrOutputDirExists ''out'')), [Stat ''out''])
   \<and> os_Stat (succeeding\<lparr>os_Stat := \<lambda>_. Some (ErrExternal ''no such file or directory'')\<rparr>)
        (OutputDir sampleConfig) \<noteq> None
   \<and> (\<exists>out evs.
         Generate (succeeding\<lparr>os_Stat := \<lambda>_. Some (ErrExternal ''no such file or directory'')\<rparr>)
           sampleConfig = (out, Stat ''out'' # MkdirAll ''out'' # evs))
   \<and> os_RemoveAll (succeeding\<lparr>os_RemoveAll := \<lambda>_. Some (ErrExternal ''permission denied'')\<rparr>)
        (OutputDir sampleConfig) = Some (ErrExternal ''permission denied'')
   \<and> Generate (succeeding\<lparr>os_RemoveAll := \<lambda>_. Some (ErrExternal ''permission denied'')\<rparr>)
        sampleConfig
       = (Return (Some (ErrFailedToDelete ''out'' (ErrExternal ''permission denied''))),
          [Stat ''out'', RemoveAll ''out''])"
  using Generate_directory_preparation [of succeeding sampleConfig]
    Generate_directory_preparation [of succeeding "sampleConfig\<lparr>Clobber := False\<rparr>"]
    Generate_directory_preparation
      [of "succeeding\<lparr>os_Stat := \<lambda>_. Some (ErrExternal ''no such file or directory'')\<rparr>"
          sampleConfig]
    Generate_directory_preparation
      [of "succeeding\<lparr>os_RemoveAll := \<lambda>_. Some (ErrExternal ''permission denied'')\<rparr>"
          sampleConfig "ErrExternal ''permission denied''"]
  by (simp add: succeeding_def sampleConfig_def)

section \<open>Sanitised names and original identifiers\<close>





















text \<open>The blocks of a task: one for each identifier that passes the name filter, in order.\<close>

definition kept :: "string \<Rightarrow> string \<Rightarrow> string list \<Rightarrow> string list \<Rightarrow> string list" where
  "kept resourceName provider includedResources ids =
     filter (\<lambda>i. filterResourceByName resourceName (cleanedID provider i) includedResources
                  = Inr True) ids"

lemma blocksLoop_Inr:
  "blocksLoop sv name provider inc acc ids = Inr bs \<Longrightarrow>
     bs = acc @ map (importBlock sv name provider) (kept name provider inc ids)"
proof (induction ids arbitrary: acc)
  case Nil
  then show ?case by (simp add: kept_def)
next
  case (Cons i ids)
  show ?case
  proof (cases "filterResourceByName name (cleanedID provider i) inc")
    case (Inl e)
    with Cons.prems show ?thesis by simp
  next
    case (Inr matched)
    show ?thesis
    proof (cases matched)
      case True
      with Inr Cons.prems Cons.IH [of "acc @ [importBlock sv name provider i]"]
      show ?thesis by (simp add: kept_def)
    next
      case False
      with Inr Cons.prems Cons.IH [of acc] show ?thesis by (simp add: kept_def)
    qed
  qed
qed

lemma task_blocks:
  assumes "b \<in> set (blocks (task sv call provider inc res))"
  shows "\<exists>lister ids. ListIDsFunc res = Some lister \<and> lister call = Inr ids
           \<and> err (task sv call provider inc res) = None
           \<and> blocks (task sv call provider inc res)
               = map (importBlock sv (Name res) provider) (kept (Name res) provider inc ids)"
proof (cases "ListIDsFunc res")
  case None
  with assms show ?thesis by (simp add: task_def)
next
  case (Some lister)
  show ?thesis
  proof (cases "lister call")
    case (Inl e)
    with Some assms show ?thesis by (simp add: task_def)
  next
    case (Inr ids)
    show ?thesis
    proof (cases "blocksLoop sv (Name res) provider inc [] ids")
      case (Inl e)
      with Some Inr assms show ?thesis by (simp add: task_def)
    next
      case bs: (Inr bs)
      from blocksLoop_Inr [OF bs] Some Inr bs show ?thesis
        by (simp add: task_def)
    qed
  qed
qed

lemma task_blocks_ok:
  assumes "ListIDsFunc r = Some lister" and "lister call = Inr ids"
    and "err (task sv call provider inc r) = None"
  shows "blocks (task sv call provider inc r)
           = map (importBlock sv (Name r) provider) (kept (Name r) provider inc ids)"
proof (cases "blocksLoop sv (Name r) provider inc [] ids")
  case (Inl e)
  with assms show ?thesis by (simp add: task_def)
next
  case (Inr bs)
  from blocksLoop_Inr [OF Inr] assms(1,2) Inr show ?thesis by (simp add: task_def)
qed

lemma task_resource: "resource (task sv call provider inc r) = r"
  by (simp add: task_def split: option.splits sum.splits)

lemma importBlock_root: "root (to_attr (importBlock sv name provider ident)) = name"
  by (simp add: importBlock_def)

lemma task_block_type:
  "b \<in> set (blocks (task sv call provider inc r)) \<Longrightarrow> root (to_attr b) = Name r"
  using task_blocks [of b sv call provider inc r] by (auto simp: importBlock_root)

lemma blocksLoop_no_filter:
  "blocksLoop sv name provider [] acc ids = Inr (acc @ map (importBlock sv name provider) ids)"
  by (induction ids arbitrary: acc) (simp_all add: filterResourceByName_def)

lemma kept_no_filter: "kept name provider [] ids = ids"
  by (simp add: kept_def filterResourceByName_def)















section \<open>Delivery order, collection and sorting\<close>

lemma deliver_mset: "mset (deliver picks xs) = mset xs"
proof (induction picks xs rule: deliver.induct)
  case (3 p picks x xs)
  define i where "i = p mod length (x # xs)"
  have i: "i < length (x # xs)" unfolding i_def by simp
  have "mset (deliver picks (take i (x # xs) @ drop (Suc i) (x # xs)))
          = mset (take i (x # xs) @ drop (Suc i) (x # xs))"
    using 3 [of i] by (simp add: i_def)
  moreover have "mset (x # xs) = mset (take i (x # xs) @ (x # xs) ! i # drop (Suc i) (x # xs))"
    using id_take_nth_drop [OF i] by simp
  moreover have "deliver (p # picks) (x # xs)
      = (x # xs) ! i # deliver picks (take i (x # xs) @ drop (Suc i) (x # xs))"
    by (simp add: Let_def i_def del: take_Cons' drop_Cons' nth_Cons')
  ultimately show ?case
    by (simp del: deliver.simps)
qed simp_all

lemma deliver_step:
  assumes "i < length xs"
  shows "deliver (i # picks) xs = xs ! i # deliver picks (take i xs @ drop (Suc i) xs)"
proof -
  from assms obtain x xs' where xs: "xs = x # xs'" by (cases xs) auto
  have "i mod length (x # xs') = i" using assms by (simp add: xs)
  then show ?thesis
    unfolding xs by (simp add: Let_def del: take_Cons' drop_Cons' nth_Cons')
qed

lemma deliver_complete:
  "mset ys = mset xs \<Longrightarrow> \<exists>picks. deliver picks xs = ys"
proof (induction ys arbitrary: xs)
  case Nil
  then show ?case by (intro exI [of _ "[]"]) simp
next
  case (Cons y ys)
  then have "y \<in> set xs" by (metis list.set_intros(1) mset_eq_setD)
  then obtain i where i: "i < length xs" "xs ! i = y"
    by (auto simp: in_set_conv_nth)
  have "mset xs = mset (take i xs @ xs ! i # drop (Suc i) xs)"
    using id_take_nth_drop [OF i(1)] by simp
  with Cons.prems i have "mset ys = mset (take i xs @ drop (Suc i) xs)" by simp
  from Cons.IH [OF this] obtain picks where
    s: "deliver picks (take i xs @ drop (Suc i) xs) = ys" by blast
  have "deliver (i # picks) xs = y # ys"
    using deliver_step [OF i(1), of picks] s i(2) by simp
  then show ?case by blast
qed

lemma received_all:
  "lateSends sched = 0 \<Longrightarrow> received sched xs = deliver (order sched) xs"
  by (simp add: received_def Let_def)

lemma received_all_mset:
  "lateSends sched = 0 \<Longrightarrow> mset (received sched xs) = mset xs"
  by (simp add: received_all deliver_mset)

lemma received_all_length:
  "lateSends sched = 0 \<Longrightarrow> length (received sched xs) = length xs"
  using received_all_mset [of sched xs] by (metis size_mset)

lemma received_subset: "set (received sched xs) \<subseteq> set xs"
proof -
  have "set (received sched xs) \<subseteq> set (deliver (order sched) xs)"
    by (simp add: received_def Let_def set_take_subset)
  also have "\<dots> = set xs"
    using mset_eq_setD [OF deliver_mset] .
  finally show ?thesis .
qed

lemma received_length: "length (received sched xs) \<le> length xs"
proof -
  have "length (deliver (order sched) xs) = length xs"
    using deliver_mset [of "order sched" xs] by (metis size_mset)
  then show ?thesis by (simp add: received_def Let_def)
qed

lemma received_distinct:
  "distinct (map f xs) \<Longrightarrow> distinct (map f (received sched xs))"
proof -
  assume d: "distinct (map f xs)"
  have "mset (map f (deliver (order sched) xs)) = mset (map f xs)"
    by (simp add: deliver_mset)
  then have "distinct (map f (deliver (order sched) xs))"
    using d mset_eq_imp_distinct_iff by blast
  then show ?thesis
    by (simp add: received_def Let_def take_map [symmetric] distinct_take)
qed

lemma collectResults_ok:
  "(\<forall>r \<in> set rs. err r = None) \<Longrightarrow> collectResults rs = Inr rs"
  by (induction rs) simp_all

lemma collectResults_fail:
  "find (\<lambda>r. err r \<noteq> None) rs = Some r \<Longrightarrow>
     collectResults rs = Inl (ErrFailedToGenerate (Name (resource r)) (the (err r)))"
proof (induction rs)
  case Nil
  then show ?case by simp
next
  case (Cons a rs)
  show ?case
  proof (cases "err a")
    case None
    with Cons show ?thesis by simp
  next
    case (Some e)
    with Cons.prems have "r = a" by simp
    with Some show ?thesis by simp
  qed
qed

lemma importsWritten_listerCalls: "importsWritten (listerCalls filtered @ evs) = importsWritten evs"
  by (induction filtered) (auto simp: importsWritten_def listerCalls_def List.map_filter_simps)

lemma aggregate_fail:
  "find (\<lambda>r. err r \<noteq> None) rs = Some r0 \<Longrightarrow>
     aggregate ext outPath provider rs
       = (Some (ErrFailedToGenerate (Name (resource r0)) (the (err r0))), [])"
  using collectResults_fail [of rs r0] by (simp add: aggregate_def)

lemma aggregate_ok:
  assumes "\<forall>r \<in> set rs. err r = None"
  shows "\<exists>res evs. aggregate ext outPath provider rs
           = (res, WriteBlocks (generatedFilename outPath provider ''imports.tf'')
                    (concat (map blocks (sortResults rs))) # evs)
           \<and> importsWritten evs = []"
  using collectResults_ok [OF assms]
  by (auto simp: aggregate_def Let_def importsWritten_def List.map_filter_simps
           split: option.splits)

lemma generateImportBlocks_all:
  assumes "filterResources resources includedResources = Inr filtered"
    and "lateSends sched = 0"
  shows "generateImportBlocks ext sched call resources outPath provider includedResources
           = (fst (aggregate ext outPath provider
                     (deliver (order sched)
                        (map (task (StringVal ext) call provider includedResources) filtered))),
              listerCalls filtered
                @ snd (aggregate ext outPath provider
                     (deliver (order sched)
                        (map (task (StringVal ext) call provider includedResources) filtered))))"
  using assms(1)
  by (simp add: generateImportBlocks_def Let_def received_all [OF assms(2)]
        received_all_length [OF assms(2), unfolded received_all [OF assms(2)]])

lemma generateImportBlocks_fail:
  assumes "filterResources resources includedResources = Inr filtered"
    and "lateSends sched = 0"
    and "find (\<lambda>r. err r \<noteq> None)
           (deliver (order sched)
              (map (task (StringVal ext) call provider includedResources) filtered)) = Some r0"
  shows "generateImportBlocks ext sched call resources outPath provider includedResources
           = (Some (ErrFailedToGenerate (Name (resource r0)) (the (err r0))),
              listerCalls filtered)"
  using generateImportBlocks_all [OF assms(1,2)] aggregate_fail [OF assms(3)]
  by simp

section \<open>Which failure a pass reports\<close>

lemma two_failures:
  "generateImportBlocks succeeding secondFirst () [failingA, failingB] ''out'' [] []
     = (Some (ErrFailedToGenerate ''beta'' (ErrExternal ''beta down'')),
        [ListIDs ''alpha'', ListIDs ''beta''])"
  by code_simp

text \<open>
  C3, as stated, fails: the aggregator returns at the first failed result it reads from
  the channel, before the results are sorted, so the failure it reports is the first in
  order of arrival. With two failing types \<open>alpha\<close> and \<open>beta\<close>, in this catalog order, and
  \<open>beta\<close> sending first, the pass reports \<open>beta\<close>.
\<close>

theorem first_error_catalog_order_counterexample:
  "filterResources [failingA, failingB] [] = Inr [failingA, failingB]
   \<and> err (task sampleStringVal () [] [] failingA) = Some (ErrExternal ''alpha down'')
   \<and> err (task sampleStringVal () [] [] failingB) = Some (ErrExternal ''beta down'')
   \<and> order secondFirst = [1] \<and> lateSends secondFirst = 0
   \<and> generateImportBlocks succeeding secondFirst () [failingA, failingB] ''out'' [] []
       = (Some (ErrFailedToGenerate ''beta'' (ErrExternal ''beta down'')),
          [ListIDs ''alpha'', ListIDs ''beta''])
   \<and> fst (generateImportBlocks succeeding secondFirst () [failingA, failingB] ''out'' [] [])
       \<noteq> Some (ErrFailedToGenerate ''alpha'' (ErrExternal ''alpha down''))"
proof -
  have "filterResources [failingA, failingB] [] = Inr [failingA, failingB]"
    by (simp add: filterResources_def)
  moreover have "err (task sampleStringVal () [] [] failingA) = Some (ErrExternal ''alpha down'')"
    and "err (task sampleStringVal () [] [] failingB) = Some (ErrExternal ''beta down'')"
    by (simp_all add: task_def failingA_def failingB_def)
  ultimately show ?thesis using two_failures by (simp add: secondFirst_def)
qed

text \<open>
  C3, amended. Take a pass in which the send of every task precedes the close of the
  channel. Then the channel holds the result of every task, each once, when the aggregator
  starts to read (no task is cancelled and none is missing), every lister has been called,
  and when a task has failed the pass returns the error of the first failed result in
  order of arrival on the channel, wrapped with the name of its resource type, having
  done nothing else; the other errors are dropped. Order of arrival need not be catalog
  order: every failed task is the one reported under some such schedule.
\<close>

theorem first_delivered_error:
  assumes "filterResources resources includedResources = Inr filtered"
    and "r \<in> set filtered"
    and "err (task (StringVal ext) call provider includedResources r) = Some e"
    and "lateSends sched = 0"
  shows "mset (received sched (map (task (StringVal ext) call provider includedResources) filtered))
           = mset (map (task (StringVal ext) call provider includedResources) filtered)
         \<and> (\<exists>r0 e0. r0 \<in> set filtered
            \<and> err (task (StringVal ext) call provider includedResources r0) = Some e0
            \<and> find (\<lambda>t. err t \<noteq> None)
                 (received sched
                    (map (task (StringVal ext) call provider includedResources) filtered))
                = Some (task (StringVal ext) call provider includedResources r0)
            \<and> generateImportBlocks ext sched call resources outPath provider includedResources
                = (Some (ErrFailedToGenerate (Name r0) e0), listerCalls filtered))
         \<and> (\<exists>sched'. lateSends sched' = 0
              \<and> generateImportBlocks ext sched' call resources outPath provider
                          includedResources
                = (Some (ErrFailedToGenerate (Name r) e), listerCalls filtered))"
proof (intro conjI)
  show "mset (received sched (map (task (StringVal ext) call provider includedResources) filtered))
           = mset (map (task (StringVal ext) call provider includedResources) filtered)"
    using assms(4) by (rule received_all_mset)
next
  let ?task = "task (StringVal ext) call provider includedResources"
  let ?ds = "deliver (order sched) (map ?task filtered)"
  have rc: "received sched (map ?task filtered) = ?ds"
    using assms(4) by (rule received_all)
  have set: "set ?ds = ?task ` set filtered"
    using mset_eq_setD [OF deliver_mset [of "order sched" "map ?task filtered"]] by simp
  with assms(2,3) have "\<exists>t \<in> set ?ds. err t \<noteq> None" by auto
  then obtain t where f: "find (\<lambda>t. err t \<noteq> None) ?ds = Some t"
    by (cases "find (\<lambda>t. err t \<noteq> None) ?ds") (auto simp: find_None_iff)
  then have "t \<in> set ?ds" and "err t \<noteq> None"
    by (auto simp: find_Some_iff)
  with set obtain r0 e0 where r0: "r0 \<in> set filtered" "t = ?task r0" "err (?task r0) = Some e0"
    by auto
  from generateImportBlocks_fail [OF assms(1,4) f, of outPath] r0
  have "generateImportBlocks ext sched call resources outPath provider includedResources
          = (Some (ErrFailedToGenerate (Name r0) e0), listerCalls filtered)"
    by (simp add: task_resource)
  with r0 f show "\<exists>r0 e0. r0 \<in> set filtered \<and> err (?task r0) = Some e0
            \<and> find (\<lambda>t. err t \<noteq> None) (received sched (map ?task filtered)) = Some (?task r0)
            \<and> generateImportBlocks ext sched call resources outPath provider includedResources
                = (Some (ErrFailedToGenerate (Name r0) e0), listerCalls filtered)"
    unfolding rc by blast
next
  let ?task = "task (StringVal ext) call provider includedResources"
  let ?ts = "map ?task filtered"
  have "?task r \<in> set ?ts" using assms(2) by simp
  then have "mset (?task r # remove1 (?task r) ?ts) = mset ?ts" by simp
  from deliver_complete [OF this] obtain picks where
    d: "deliver picks ?ts = ?task r # remove1 (?task r) ?ts" by blast
  define sched' where "sched' = \<lparr>order = picks, lateSends = 0, panicAfter = None\<rparr>"
  have l: "lateSends sched' = 0" and o: "order sched' = picks"
    by (simp_all add: sched'_def)
  have "find (\<lambda>t. err t \<noteq> None) (deliver (order sched') ?ts) = Some (?task r)"
    unfolding o d using assms(3) by simp
  from generateImportBlocks_fail [OF assms(1) l this, of outPath] assms(3)
  have "generateImportBlocks ext sched' call resources outPath provider includedResources
                = (Some (ErrFailedToGenerate (Name r) e), listerCalls filtered)"
    by (simp add: task_resource)
  with l show "\<exists>sched'. lateSends sched' = 0
              \<and> generateImportBlocks ext sched' call resources outPath provider
                          includedResources
                = (Some (ErrFailedToGenerate (Name r) e), listerCalls filtered)"
    by blast
qed

theorem first_delivered_error_witness:
  "filterResources [failingA, failingB] [] = Inr [failingA, failingB]
   \<and> failingA \<in> set [failingA, failingB]
   \<and> err (task (StringVal succeeding) () [] [] failingA) = Some (ErrExternal ''alpha down'')
   \<and> lateSends secondFirst = 0
   \<and> mset (received secondFirst (map (task (StringVal succeeding) () [] []) [failingA, failingB]))
       = mset (map (task (StringVal succeeding) () [] []) [failingA, failingB])
   \<and> generateImportBlocks succeeding secondFirst () [failingA, failingB] ''out'' [] []
       = (Some (ErrFailedToGenerate ''beta'' (ErrExternal ''beta down'')),
          [ListIDs ''alpha'', ListIDs ''beta''])
   \<and> (\<exists>sched'. lateSends sched' = 0
        \<and> generateImportBlocks succeeding sched' () [failingA, failingB] ''out'' [] []
            = (Some (ErrFailedToGenerate ''alpha'' (ErrExternal ''alpha down'')),
               [ListIDs ''alpha'', ListIDs ''beta'']))"
proof -
  have f: "filterResources [failingA, failingB] [] = Inr [failingA, failingB]"
    by (simp add: filterResources_def)
  have a: "failingA \<in> set [failingA, failingB]" by simp
  have e: "err (task (StringVal succeeding) () [] [] failingA) = Some (ErrExternal ''alpha down'')"
    by (simp add: task_def failingA_def)
  have s: "lateSends secondFirst = 0" by (simp add: secondFirst_def)
  have l: "listerCalls [failingA, failingB] = [ListIDs ''alpha'', ListIDs ''beta'']"
    by (simp add: listerCalls_def failingA_def failingB_def)
  have n: "Name failingA = ''alpha''" by (simp add: failingA_def)
  note t = first_delivered_error [OF f a e s, of "''out''", unfolded l n]
  show ?thesis
    using f a e s t [THEN conjunct1] two_failures t [THEN conjunct2, THEN conjunct2]
    by (intro conjI)
qed

section \<open>A single failure in a pass\<close>

lemma listerCalls_only_listers: "set (listerCalls filtered) \<subseteq> range ListIDs"
  by (auto simp: listerCalls_def)

lemma pattern_error_elsewhere:
  "generateImportBlocks succeeding inOrder () [dashboard, failingA] ''out'' [] [''*.['']
     = (Some (ErrFailedToGenerate ''dashboard'' ErrBadPattern),
        [ListIDs ''dashboard'', ListIDs ''alpha''])"
  by code_simp

text \<open>
  C5, as stated, fails where it names the failure that is reported. A task also fails
  when a pattern of the inclusion list turns out to be malformed while its identifiers are
  filtered. With the inclusion list \<open>*.[\<close>, the lister of \<open>alpha\<close> failing and the lister of
  \<open>dashboard\<close> succeeding, the pass reports the type \<open>dashboard\<close>, whose lister succeeded.
\<close>

theorem single_lister_failure_counterexample:
  "filterResources [dashboard, failingA] [''*.['']  = Inr [dashboard, failingA]
   \<and> the (ListIDsFunc failingA) () = Inl (ErrExternal ''alpha down'')
   \<and> the (ListIDsFunc dashboard) () = Inr [''abc'']
   \<and> order inOrder = [] \<and> lateSends inOrder = 0
   \<and> generateImportBlocks succeeding inOrder () [dashboard, failingA] ''out'' [] [''*.['']
       = (Some (ErrFailedToGenerate ''dashboard'' ErrBadPattern),
          [ListIDs ''dashboard'', ListIDs ''alpha''])
   \<and> fst (generateImportBlocks succeeding inOrder () [dashboard, failingA] ''out'' [] [''*.[''])
       \<noteq> Some (ErrFailedToGenerate ''alpha'' (ErrExternal ''alpha down''))"
proof -
  have "filterResources [dashboard, failingA] [''*.['']  = Inr [dashboard, failingA]"
    by code_simp
  then show ?thesis
    using pattern_error_elsewhere by (simp add: dashboard_def failingA_def inOrder_def)
qed

text \<open>
  C5, amended. Take a pass in which the send of every task precedes the close of the
  channel. If the lister of exactly one selected type returns an error and the task of
  every other selected type succeeds (its lister, if it has one, succeeds and no pattern
  error arises while its identifiers are filtered), then, whatever the order of the
  sends, the pass returns that lister's error wrapped with the name of the failing type,
  and it has done nothing but call the listers: nothing is written and the external tool
  is not run.
\<close>

theorem single_task_failure:
  assumes "filterResources resources includedResources = Inr filtered"
    and "r \<in> set filtered"
    and "ListIDsFunc r = Some lister" and "lister call = Inl e"
    and "\<forall>r' \<in> set filtered. r' \<noteq> r \<longrightarrow>
           err (task (StringVal ext) call provider includedResources r') = None"
    and "lateSends sched = 0"
  shows "generateImportBlocks ext sched call resources outPath provider includedResources
           = (Some (ErrFailedToGenerate (Name r) e), listerCalls filtered)
         \<and> set (listerCalls filtered) \<subseteq> range ListIDs
         \<and> importsWritten (listerCalls filtered) = []"
proof -
  let ?task = "task (StringVal ext) call provider includedResources"
  let ?ds = "deliver (order sched) (map ?task filtered)"
  have e: "err (?task r) = Some e" using assms(3,4) by (simp add: task_def)
  have set: "set ?ds = ?task ` set filtered"
    using mset_eq_setD [OF deliver_mset [of "order sched" "map ?task filtered"]] by simp
  with assms(2) e have "\<exists>t \<in> set ?ds. err t \<noteq> None" by auto
  then obtain t where f: "find (\<lambda>t. err t \<noteq> None) ?ds = Some t"
    by (cases "find (\<lambda>t. err t \<noteq> None) ?ds") (auto simp: find_None_iff)
  then have "t \<in> set ?ds" and "err t \<noteq> None"
    by (auto simp: find_Some_iff)
  with set obtain r0 where "r0 \<in> set filtered" "t = ?task r0" "err (?task r0) \<noteq> None"
    by auto
  with assms(5) have t: "t = ?task r" by auto
  have "generateImportBlocks ext sched call resources outPath provider includedResources
           = (Some (ErrFailedToGenerate (Name r) e), listerCalls filtered)"
    using generateImportBlocks_fail [OF assms(1,6) f, of outPath] e
    by (simp add: t task_resource)
  moreover have "importsWritten (listerCalls filtered) = []"
    using importsWritten_listerCalls [of filtered "[]"] by (simp add: importsWritten_def)
  ultimately show ?thesis using listerCalls_only_listers by blast
qed

theorem single_task_failure_witness:
  "filterResources [dashboard, failingA, folder] [] = Inr [dashboard, failingA, folder]
   \<and> failingA \<in> set [dashboard, failingA, folder]
   \<and> lateSends \<lparr>order = [2, 0], lateSends = 0, panicAfter = None\<rparr> = 0
   \<and> generateImportBlocks succeeding \<lparr>order = [2, 0], lateSends = 0, panicAfter = None\<rparr> ()
        [dashboard, failingA, folder] ''out'' [] []
       = (Some (ErrFailedToGenerate ''alpha'' (ErrExternal ''alpha down'')),
          [ListIDs ''dashboard'', ListIDs ''alpha'', ListIDs ''folder''])
   \<and> importsWritten [ListIDs ''dashboard'', ListIDs ''alpha'', ListIDs ''folder''] = []"
proof -
  have f: "filterResources [dashboard, failingA, folder] [] = Inr [dashboard, failingA, folder]"
    by (simp add: filterResources_def)
  have a: "failingA \<in> set [dashboard, failingA, folder]" by simp
  have l: "ListIDsFunc failingA = Some (\<lambda>_. Inl (ErrExternal ''alpha down''))"
    by (simp add: failingA_def)
  have "err (task (StringVal succeeding) () [] [] dashboard) = None"
    and "err (task (StringVal succeeding) () [] [] folder) = None"
    by code_simp+
  then have o: "\<forall>r' \<in> set [dashboard, failingA, folder]. r' \<noteq> failingA \<longrightarrow>
             err (task (StringVal succeeding) () [] [] r') = None"
    by simp
  have s: "lateSends \<lparr>order = [2, 0], lateSends = 0, panicAfter = None\<rparr> = 0" by simp
  have c: "listerCalls [dashboard, failingA, folder]
             = [ListIDs ''dashboard'', ListIDs ''alpha'', ListIDs ''folder'']"
    by (simp add: listerCalls_def dashboard_def failingA_def folder_def)
  have n: "Name failingA = ''alpha''" by (simp add: failingA_def)
  note t = single_task_failure [OF f a l refl o s, of "''out''", unfolded c n]
  show ?thesis
    using f a s t [THEN conjunct1] t [THEN conjunct2, THEN conjunct2]
    by (intro conjI)
qed

section \<open>The blocks a pass writes\<close>

lemma filterLoop_Inr:
  "filterLoop types rs = Inr fs \<Longrightarrow>
     fs = filter (\<lambda>r. matchesAllowedType types (Name r) = Inr True) rs
     \<and> (\<forall>r \<in> set rs. \<exists>b. matchesAllowedType types (Name r) = Inr b)"
proof (induction rs arbitrary: fs)
  case Nil
  then show ?case by simp
next
  case (Cons r rs)
  from Cons.prems obtain b where b: "matchesAllowedType types (Name r) = Inr b"
    by (cases "matchesAllowedType types (Name r)") auto
  with Cons.prems obtain fs' where fs': "filterLoop types rs = Inr fs'"
    by (cases "filterLoop types rs") auto
  from Cons.IH [OF fs'] b fs' Cons.prems show ?case by auto
qed

lemma filterLoop_ok:
  "\<forall>r \<in> set rs. \<exists>b. matchesAllowedType types (Name r) = Inr b \<Longrightarrow>
     filterLoop types rs = Inr (filter (\<lambda>r. matchesAllowedType types (Name r) = Inr True) rs)"
  by (induction rs) auto

lemma filterLoop_perm:
  assumes "mset rs' = mset rs"
  shows "(filterLoop types rs = Inr fs \<longrightarrow> (\<exists>fs'. filterLoop types rs' = Inr fs' \<and> mset fs' = mset fs))
       \<and> (filterLoop types rs = Inl e \<longrightarrow> (\<exists>e'. filterLoop types rs' = Inl e'))"
proof (intro conjI impI)
  assume a: "filterLoop types rs = Inr fs"
  from filterLoop_Inr [OF a] have
    fs: "fs = filter (\<lambda>r. matchesAllowedType types (Name r) = Inr True) rs"
    and ok: "\<forall>r \<in> set rs. \<exists>b. matchesAllowedType types (Name r) = Inr b" by auto
  have "set rs' = set rs" using assms by (rule mset_eq_setD)
  with ok have "\<forall>r \<in> set rs'. \<exists>b. matchesAllowedType types (Name r) = Inr b" by simp
  from filterLoop_ok [OF this] show "\<exists>fs'. filterLoop types rs' = Inr fs' \<and> mset fs' = mset fs"
    using assms by (simp add: fs)
next
  assume a: "filterLoop types rs = Inl e"
  show "\<exists>e'. filterLoop types rs' = Inl e'"
  proof (cases "filterLoop types rs'")
    case (Inl e')
    then show ?thesis by blast
  next
    case (Inr fs')
    from filterLoop_Inr [OF Inr] have
      "\<forall>r \<in> set rs'. \<exists>b. matchesAllowedType types (Name r) = Inr b" by auto
    moreover have "set rs' = set rs" using assms by (rule mset_eq_setD)
    ultimately have "\<forall>r \<in> set rs. \<exists>b. matchesAllowedType types (Name r) = Inr b" by simp
    from filterLoop_ok [OF this] a show ?thesis by simp
  qed
qed

lemma filterResources_perm:
  assumes "mset rs' = mset rs"
  shows "(filterResources rs inc = Inr fs \<longrightarrow>
            (\<exists>fs'. filterResources rs' inc = Inr fs' \<and> mset fs' = mset fs))
       \<and> (filterResources rs inc = Inl e \<longrightarrow> (\<exists>e'. filterResources rs' inc = Inl e'))"
proof (cases "inc = []")
  case True
  then show ?thesis using assms by (simp add: filterResources_def)
next
  case False
  show ?thesis
  proof (cases "allowedResourceTypes inc")
    case (Inl e0)
    with False show ?thesis by (simp add: filterResources_def)
  next
    case (Inr types)
    with False filterLoop_perm [OF assms, of types fs e] show ?thesis
      by (simp add: filterResources_def)
  qed
qed

lemma filterResources_distinct:
  assumes "filterResources rs inc = Inr fs" and "distinct (map Name rs)"
  shows "distinct (map Name fs)"
proof (cases "inc = []")
  case True
  with assms show ?thesis by (simp add: filterResources_def)
next
  case False
  with assms(1) obtain types where "filterLoop types rs = Inr fs"
    by (auto simp: filterResources_def split: sum.splits)
  from filterLoop_Inr [OF this] assms(2) show ?thesis
    by (simp add: distinct_map_filter)
qed

lemma filterResources_subset:
  assumes "filterResources rs inc = Inr fs"
  shows "set fs \<subseteq> set rs"
proof (cases "inc = []")
  case True
  with assms show ?thesis by (simp add: filterResources_def)
next
  case False
  with assms(1) obtain types where "filterLoop types rs = Inr fs"
    by (auto simp: filterResources_def split: sum.splits)
  from filterLoop_Inr [OF this] show ?thesis by auto
qed

lemma filter_key_single:
  "distinct (map f xs) \<Longrightarrow> k \<in> set xs \<Longrightarrow> filter (\<lambda>x. f k = f x) xs = [k]"
proof (induction xs)
  case Nil
  then show ?case by simp
next
  case (Cons x xs)
  show ?case
  proof (cases "x = k")
    case True
    with Cons.prems have "\<forall>y \<in> set xs. f k \<noteq> f y" by auto
    then have "filter (\<lambda>x. f k = f x) xs = []" by (simp add: filter_empty_conv)
    with True show ?thesis by simp
  next
    case False
    with Cons.prems have k: "k \<in> set xs" by simp
    with Cons.prems have "f k \<noteq> f x" by (metis distinct.simps(2) image_eqI list.simps(9) set_map)
    with Cons k show ?thesis by simp
  qed
qed

lemma sort_key_perm:
  assumes "mset ys = mset xs" and "distinct (map f xs)"
  shows "sort_key f ys = sort_key f xs"
proof (rule properties_for_sort_key [symmetric])
  show "mset (sort_key f ys) = mset xs" using assms(1) by simp
  show "sorted (map f (sort_key f ys))" by simp
  fix k assume "k \<in> set (sort_key f ys)"
  then have k: "k \<in> set xs" "k \<in> set (sort_key f ys)"
    using assms(1) mset_eq_setD by fastforce+
  have "mset (map f (sort_key f ys)) = mset (map f xs)"
    using assms(1) by simp
  then have d: "distinct (map f (sort_key f ys))"
    using assms(2) mset_eq_imp_distinct_iff by blast
  show "filter (\<lambda>x. f k = f x) (sort_key f ys) = filter (\<lambda>x. f k = f x) xs"
    using filter_key_single [OF d k(2)] filter_key_single [OF assms(2) k(1)] by simp
qed

lemma sortResults_unique:
  assumes "distinct (map (\<lambda>r. Name (resource r)) xs)" and "mset ys = mset xs"
    and "sorted (map (\<lambda>r. Name (resource r)) ys)"
  shows "ys = sortResults xs"
proof -
  have "sort_key (\<lambda>r. Name (resource r)) xs = ys"
  proof (rule properties_for_sort_key)
    show "mset ys = mset xs" by (rule assms(2))
    show "sorted (map (\<lambda>r. Name (resource r)) ys)" by (rule assms(3))
    fix k assume k: "k \<in> set ys"
    then have kx: "k \<in> set xs" using assms(2) mset_eq_setD by blast
    have "mset (map (\<lambda>r. Name (resource r)) ys) = mset (map (\<lambda>r. Name (resource r)) xs)"
      using assms(2) by simp
    then have d: "distinct (map (\<lambda>r. Name (resource r)) ys)"
      using assms(1) mset_eq_imp_distinct_iff by blast
    show "filter (\<lambda>x. Name (resource k) = Name (resource x)) ys
            = filter (\<lambda>x. Name (resource k) = Name (resource x)) xs"
      using filter_key_single [OF d k] filter_key_single [OF assms(1) kx] by simp
  qed
  then show ?thesis by (simp add: sortResults_def)
qed

lemma importsWritten_simps:
  "importsWritten [] = []"
  "importsWritten (WriteBlocks file bs # evs) = bs # importsWritten evs"
  by (simp_all add: importsWritten_def List.map_filter_simps)

lemma importsWritten_take:
  "importsWritten evs = [] \<Longrightarrow> importsWritten (take k evs) = []"
proof (induction evs arbitrary: k)
  case Nil
  then show ?case by (simp add: importsWritten_def List.map_filter_simps)
next
  case (Cons ev evs)
  then show ?case
    by (cases k) (auto simp: importsWritten_def List.map_filter_simps split: option.splits)
qed

lemma task_names:
  "map (\<lambda>t. Name (resource t)) (map (task sv call provider inc) filtered) = map Name filtered"
  by (simp add: task_resource comp_def)

lemma sortResults_deliver:
  assumes "distinct (map Name filtered)"
  shows "sortResults (deliver picks (map (task sv call provider inc) filtered))
           = sortResults (map (task sv call provider inc) filtered)"
proof -
  from assms have "distinct (map (\<lambda>r. Name (resource r)) (map (task sv call provider inc) filtered))"
    by (simp only: task_names)
  from sort_key_perm [OF deliver_mset this] show ?thesis
    by (simp add: sortResults_def)
qed

text \<open>
  Whatever the schedule, a block list handed to \<open>writeBlocks\<close> by the pass is the
  concatenation of the blocks of the results read from the channel, sorted by name, and
  none of these results holds an error.
\<close>

lemma generateImportBlocks_written_any:
  assumes "filterResources resources inc = Inr filtered"
    and "importsWritten (snd (generateImportBlocks ext sched call resources outPath provider inc))
           = [allBlocks]"
  shows "allBlocks
           = concat (map blocks (sortResults
               (received sched (map (task (StringVal ext) call provider inc) filtered))))
         \<and> (\<forall>t \<in> set (received sched (map (task (StringVal ext) call provider inc) filtered)).
               err t = None)"
proof -
  let ?got = "received sched (map (task (StringVal ext) call provider inc) filtered)"
  let ?agg = "aggregate ext outPath provider ?got"
  have w: "importsWritten (snd ?agg) = [allBlocks] \<or> (\<exists>j. importsWritten (take j (snd ?agg)) = [allBlocks])"
    using assms
    by (auto simp: generateImportBlocks_def Let_def importsWritten_listerCalls
          split: if_splits option.splits)
  show ?thesis
  proof (cases "\<forall>t \<in> set ?got. err t = None")
    case True
    from aggregate_ok [OF True, of ext outPath provider] obtain res evs where
      a: "?agg = (res, WriteBlocks (generatedFilename outPath provider ''imports.tf'')
                    (concat (map blocks (sortResults ?got))) # evs)"
      and e: "importsWritten evs = []"
      by blast
    have "importsWritten (take j (snd ?agg)) = [allBlocks] \<Longrightarrow>
            allBlocks = concat (map blocks (sortResults ?got))" for j
      unfolding a using importsWritten_take [OF e]
      by (cases j) (simp_all add: importsWritten_simps)
    moreover have "importsWritten (snd ?agg) = [allBlocks] \<Longrightarrow>
            allBlocks = concat (map blocks (sortResults ?got))"
      unfolding a using e by (simp add: importsWritten_simps)
    ultimately show ?thesis using w True by blast
  next
    case False
    then obtain t where f: "find (\<lambda>t. err t \<noteq> None) ?got = Some t"
      by (cases "find (\<lambda>t. err t \<noteq> None) ?got") (auto simp: find_None_iff)
    from aggregate_fail [OF f, of ext outPath provider] w show ?thesis
      by (simp add: importsWritten_simps)
  qed
qed

lemma generateImportBlocks_written:
  assumes "filterResources resources inc = Inr filtered" and "distinct (map Name filtered)"
    and "lateSends sched = 0"
  shows "importsWritten (snd (generateImportBlocks ext sched call resources outPath provider inc))
           = (if \<forall>r \<in> set filtered. err (task (StringVal ext) call provider inc r) = None
              then [concat (map blocks (sortResults
                      (map (task (StringVal ext) call provider inc) filtered)))]
              else [])"
proof (cases "\<forall>r \<in> set filtered. err (task (StringVal ext) call provider inc r) = None")
  case True
  let ?task = "task (StringVal ext) call provider inc"
  let ?ds = "deliver (order sched) (map ?task filtered)"
  have "set ?ds = ?task ` set filtered"
    using mset_eq_setD [OF deliver_mset [of "order sched" "map ?task filtered"]] by simp
  with True have "\<forall>t \<in> set ?ds. err t = None" by auto
  from aggregate_ok [OF this, of ext outPath provider] obtain res evs where
    a: "aggregate ext outPath provider ?ds
          = (res, WriteBlocks (generatedFilename outPath provider ''imports.tf'')
                    (concat (map blocks (sortResults ?ds))) # evs)"
    and e: "importsWritten evs = []"
    by blast
  show ?thesis
    unfolding generateImportBlocks_all [OF assms(1,3)] a
    using True e
    by (simp add: importsWritten_listerCalls importsWritten_simps
          sortResults_deliver [OF assms(2)])
next
  case False
  let ?task = "task (StringVal ext) call provider inc"
  let ?ds = "deliver (order sched) (map ?task filtered)"
  have "set ?ds = ?task ` set filtered"
    using mset_eq_setD [OF deliver_mset [of "order sched" "map ?task filtered"]] by simp
  with False have "\<exists>t \<in> set ?ds. err t \<noteq> None" by auto
  then obtain t where f: "find (\<lambda>t. err t \<noteq> None) ?ds = Some t"
    by (cases "find (\<lambda>t. err t \<noteq> None) ?ds") (auto simp: find_None_iff)
  from generateImportBlocks_fail [OF assms(1,3) f, of outPath] False
  show ?thesis
    using importsWritten_listerCalls [of filtered "[]"] by (simp add: importsWritten_simps)
qed

lemma generateImportBlocks_written_filter_error:
  assumes "filterResources resources inc = Inl e"
  shows "importsWritten (snd (generateImportBlocks ext sched call resources outPath provider inc)) = []"
  using generateImportBlocks_filter_error [OF assms] by (simp add: importsWritten_simps)

section \<open>Independence of the processing order\<close>

lemma late_send_returns:
  "generateImportBlocks succeeding oneLate () [dashboard, folder] ''out'' [] []
     = (None,
        [ListIDs ''dashboard'', ListIDs ''folder'',
         WriteBlocks (Join ''out'' ''imports.tf'')
           [ImportBlock (traversal ''dashboard'' ''_abc'') ''abc'' None],
         RunTerraform ''out'' [Arg ''plan'', GenerateConfigOut (Join ''out'' ''resources.tf'')],
         SortResourcesFile (Join ''out'' ''resources.tf'')])"
  by code_simp

lemma late_send_panics:
  "generateImportBlocks succeeding oneLatePanic () [dashboard, folder] ''out'' [] []
     = (Some PanicSendOnClosedChannel,
        [ListIDs ''dashboard'', ListIDs ''folder'',
         WriteBlocks (Join ''out'' ''imports.tf'')
           [ImportBlock (traversal ''dashboard'' ''_abc'') ''abc'' None]])"
  by code_simp

lemma reversed_written:
  "importsWritten
     (snd (generateImportBlocks succeeding inOrder () (rev [dashboard, folder]) ''out'' [] []))
     = [[ImportBlock (traversal ''dashboard'' ''_abc'') ''abc'' None,
         ImportBlock (traversal ''folder'' ''_xyz'') ''xyz'' None]]"
  by code_simp

lemma two_types_written:
  "importsWritten
     (snd (generateImportBlocks succeeding secondFirst () [dashboard, folder] ''out'' [] []))
     = [[ImportBlock (traversal ''dashboard'' ''_abc'') ''abc'' None,
         ImportBlock (traversal ''folder'' ''_xyz'') ''xyz'' None]]"
  by code_simp

lemma secondFirst_arrival:
  "received secondFirst (map (task (StringVal succeeding) () [] []) [dashboard, folder])
     = [task (StringVal succeeding) () [] [] folder,
        task (StringVal succeeding) () [] [] dashboard]"
  by (simp add: received_def secondFirst_def Let_def)

lemma oneLate_arrival:
  "received oneLate (map (task (StringVal succeeding) () [] []) [dashboard, folder])
     = [task (StringVal succeeding) () [] [] dashboard]"
  by (simp add: received_def oneLate_def Let_def)

text \<open>
  C7, where the code departs from the claim. The catalog holds \<open>dashboard\<close> and \<open>folder\<close>,
  nothing is filtered and every external call succeeds. The task of \<open>folder\<close> calls
  \<open>wg.Done()\<close> and is overtaken before its send: \<open>wg.Wait()\<close> returns and the channel is
  closed with the result of \<open>dashboard\<close> alone. The pass writes an imports file with the
  block of \<open>dashboard\<close> only and runs the external tool on it; then it returns \<open>nil\<close>, or
  the late send ends the process with a panic. The same catalog in reversed order, with
  both sends in time, writes the blocks of both types.
\<close>

theorem late_send_loses_blocks:
  "lateSends oneLate = 1 \<and> lateSends oneLatePanic = 1 \<and> panicAfter oneLatePanic = Some 1
   \<and> received oneLate (map (task (StringVal succeeding) () [] []) [dashboard, folder])
       = [task (StringVal succeeding) () [] [] dashboard]
   \<and> generateImportBlocks succeeding oneLate () [dashboard, folder] ''out'' [] []
       = (None,
          [ListIDs ''dashboard'', ListIDs ''folder'',
           WriteBlocks (Join ''out'' ''imports.tf'')
             [ImportBlock (traversal ''dashboard'' ''_abc'') ''abc'' None],
           RunTerraform ''out''
             [Arg ''plan'', GenerateConfigOut (Join ''out'' ''resources.tf'')],
           SortResourcesFile (Join ''out'' ''resources.tf'')])
   \<and> generateImportBlocks succeeding oneLatePanic () [dashboard, folder] ''out'' [] []
       = (Some PanicSendOnClosedChannel,
          [ListIDs ''dashboard'', ListIDs ''folder'',
           WriteBlocks (Join ''out'' ''imports.tf'')
             [ImportBlock (traversal ''dashboard'' ''_abc'') ''abc'' None]])
   \<and> importsWritten
        (snd (generateImportBlocks succeeding inOrder () (rev [dashboard, folder]) ''out'' [] []))
       = [[ImportBlock (traversal ''dashboard'' ''_abc'') ''abc'' None,
           ImportBlock (traversal ''folder'' ''_xyz'') ''xyz'' None]]"
  using late_send_returns late_send_panics reversed_written oneLate_arrival
  by (simp add: oneLate_def oneLatePanic_def)

text \<open>
  C7, for the passes in which the send of every task precedes the close of the channel.
  The catalog is keyed by name, so its descriptors have distinct names. For such a catalog
  the block lists handed to \<open>writeBlocks\<close> by a pass are the same whatever the order of
  the catalog (reversed, or permuted in any way) and whatever the order in which the
  tasks send: the results are sorted by name before the blocks are collected, and a pass
  in which a task fails writes nothing in either order.
\<close>

theorem written_blocks_order_independent:
  assumes "distinct (map Name resources)"
    and "lateSends sched = 0" and "lateSends sched' = 0"
  shows "importsWritten (snd (generateImportBlocks ext sched call resources outPath provider inc))
           = importsWritten
               (snd (generateImportBlocks ext sched' call (rev resources) outPath provider inc))
         \<and> (mset resources' = mset resources \<longrightarrow>
              importsWritten
                (snd (generateImportBlocks ext sched call resources outPath provider inc))
              = importsWritten
                  (snd (generateImportBlocks ext sched' call resources' outPath provider inc)))"
proof -
  have perm: "importsWritten
                (snd (generateImportBlocks ext sched call resources outPath provider inc))
              = importsWritten
                  (snd (generateImportBlocks ext sched' call rs outPath provider inc))"
    if p: "mset rs = mset resources" for rs
  proof (cases "filterResources resources inc")
    case (Inl e)
    with filterResources_perm [OF p, of inc undefined e] obtain e' where
      "filterResources rs inc = Inl e'" by blast
    with Inl show ?thesis
      by (simp add: generateImportBlocks_written_filter_error)
  next
    case (Inr fs)
    with filterResources_perm [OF p, of inc fs undefined] obtain fs' where
      fs': "filterResources rs inc = Inr fs'" "mset fs' = mset fs" by blast
    let ?task = "task (StringVal ext) call provider inc"
    have d: "distinct (map Name fs)"
      using filterResources_distinct [OF Inr assms(1)] .
    have "mset (map Name fs') = mset (map Name fs)" using fs'(2) by simp
    with d have d': "distinct (map Name fs')"
      using mset_eq_imp_distinct_iff by blast
    have set: "set fs' = set fs" using fs'(2) by (rule mset_eq_setD)
    have m: "mset (map ?task fs') = mset (map ?task fs)" using fs'(2) by simp
    have dt: "distinct (map (\<lambda>r. Name (resource r)) (map ?task fs))"
      using d by (simp only: task_names)
    have "sortResults (map ?task fs') = sortResults (map ?task fs)"
      using sort_key_perm [OF m dt] by (simp add: sortResults_def)
    then show ?thesis
      by (simp add: generateImportBlocks_written [OF Inr d assms(2)]
            generateImportBlocks_written [OF fs'(1) d' assms(3)] set)
  qed
  show ?thesis
    using perm [of "rev resources"] perm [of resources'] by simp
qed

theorem written_blocks_order_independent_witness:
  "distinct (map Name [dashboard, folder])
   \<and> lateSends secondFirst = 0 \<and> lateSends inOrder = 0
   \<and> received secondFirst (map (task (StringVal succeeding) () [] []) [dashboard, folder])
       = [task (StringVal succeeding) () [] [] folder,
          task (StringVal succeeding) () [] [] dashboard]
   \<and> importsWritten
        (snd (generateImportBlocks succeeding secondFirst () [dashboard, folder] ''out'' [] []))
       = [[ImportBlock (traversal ''dashboard'' ''_abc'') ''abc'' None,
           ImportBlock (traversal ''folder'' ''_xyz'') ''xyz'' None]]
   \<and> importsWritten
        (snd (generateImportBlocks succeeding inOrder () (rev [dashboard, folder]) ''out'' [] []))
       = [[ImportBlock (traversal ''dashboard'' ''_abc'') ''abc'' None,
           ImportBlock (traversal ''folder'' ''_xyz'') ''xyz'' None]]
   \<and> mset [folder, dashboard] = mset [dashboard, folder]
   \<and> importsWritten
        (snd (generateImportBlocks succeeding inOrder () [folder, dashboard] ''out'' [] []))
       = [[ImportBlock (traversal ''dashboard'' ''_abc'') ''abc'' None,
           ImportBlock (traversal ''folder'' ''_xyz'') ''xyz'' None]]"
proof -
  have d: "distinct (map Name [dashboard, folder])"
    by (simp add: dashboard_def folder_def)
  have s: "lateSends secondFirst = 0" by (simp add: secondFirst_def)
  have s': "lateSends inOrder = 0" by (simp add: inOrder_def)
  have m: "mset [folder, dashboard] = mset [dashboard, folder]"
    by simp
  note t = written_blocks_order_independent [OF d s s', where ext = succeeding
        and call = "()" and outPath = "''out''" and provider = "[]" and inc = "[]"
        and resources' = "[folder, dashboard]"]
  note t1 = t [THEN conjunct1, unfolded two_types_written, symmetric]
  note t2 = t [THEN conjunct2, THEN mp, OF m, unfolded two_types_written, symmetric]
  show ?thesis
    using d s s' secondFirst_arrival two_types_written t1 m t2
    by (intro conjI)
qed

section \<open>The order of blocks within a type\<close>

lemma filter_concat_key:
  assumes "distinct (map key xs)" and "x \<in> set xs"
    and "\<forall>y \<in> set xs. \<forall>b \<in> set (g y). ty b = key y"
  shows "filter (\<lambda>b. ty b = key x) (concat (map g xs)) = g x"
  using assms
proof (induction xs)
  case Nil
  then show ?case by simp
next
  case (Cons a xs)
  show ?case
  proof (cases "a = x")
    case True
    with Cons.prems(1) have "key x \<notin> key ` set xs" by simp
    then have "\<forall>y \<in> set xs. key y \<noteq> key x" by (metis image_eqI)
    with Cons.prems(3) have "\<forall>y \<in> set xs. \<forall>b \<in> set (g y). ty b \<noteq> key x" by auto
    then have "filter (\<lambda>b. ty b = key x) (concat (map g xs)) = []"
      by (auto simp: filter_empty_conv)
    moreover have "filter (\<lambda>b. ty b = key x) (g x) = g x"
      using Cons.prems(3) True by (simp add: filter_id_conv)
    ultimately show ?thesis using True by simp
  next
    case False
    with Cons.prems have x: "x \<in> set xs" by simp
    with Cons.prems(1) have "key a \<noteq> key x"
      by (metis distinct.simps(2) image_eqI list.simps(9) set_map)
    with Cons.prems(3) have "filter (\<lambda>b. ty b = key x) (g a) = []"
      by (auto simp: filter_empty_conv)
    moreover have "filter (\<lambda>b. ty b = key x) (concat (map g xs)) = g x"
      using Cons.IH x Cons.prems by simp
    ultimately show ?thesis by simp
  qed
qed

text \<open>
  C9. Take a pass over a catalog with distinct names that writes its import blocks. The
  blocks of one selected type, read off the written list in order, are the blocks of the
  identifiers that passed the name filter, in the order in which the lister returned them;
  this holds for every type whose result was on the channel, which is every selected
  type when no send came after the close, and the list holds no block of a type whose
  result was not. The written list is the concatenation of the block lists of the results
  read, taken in order of type name: only whole results are sorted, never the blocks of
  a result.
\<close>

theorem blocks_in_lister_order:
  assumes "distinct (map Name resources)"
    and "filterResources resources inc = Inr filtered"
    and "importsWritten
           (snd (generateImportBlocks ext sched call resources outPath provider inc))
         = [allBlocks]"
    and "r \<in> set filtered" and "ListIDsFunc r = Some lister" and "lister call = Inr ids"
  shows "filter (\<lambda>b. root (to_attr b) = Name r) allBlocks
           = (if task (StringVal ext) call provider inc r
                   \<in> set (received sched (map (task (StringVal ext) call provider inc) filtered))
              then map (importBlock (StringVal ext) (Name r) provider)
                     (filter (\<lambda>i. filterResourceByName (Name r) (cleanedID provider i) inc
                                     = Inr True) ids)
              else [])
         \<and> (lateSends sched = 0 \<longrightarrow>
              task (StringVal ext) call provider inc r
                \<in> set (received sched (map (task (StringVal ext) call provider inc) filtered)))
         \<and> allBlocks
             = concat (map blocks (sortResults
                 (received sched (map (task (StringVal ext) call provider inc) filtered))))
         \<and> sorted (map (\<lambda>t. Name (resource t))
                      (sortResults
                         (received sched (map (task (StringVal ext) call provider inc) filtered))))"
proof -
  let ?task = "task (StringVal ext) call provider inc"
  let ?got = "received sched (map ?task filtered)"
  let ?sorted = "sortResults ?got"
  have d: "distinct (map Name filtered)"
    using filterResources_distinct [OF assms(2,1)] .
  from generateImportBlocks_written_any [OF assms(2,3)]
  have all: "allBlocks = concat (map blocks ?sorted)"
    and ok: "\<forall>t \<in> set ?got. err t = None"
    by blast+
  have sub: "set ?got \<subseteq> ?task ` set filtered"
    using received_subset [of sched "map ?task filtered"] by simp
  have m: "mset ?sorted = mset ?got"
    by (simp add: sortResults_def)
  have dg: "distinct (map (\<lambda>t. Name (resource t)) ?got)"
    using d received_distinct [of "\<lambda>t. Name (resource t)" "map ?task filtered" sched]
    by (simp only: task_names)
  have "mset (map (\<lambda>t. Name (resource t)) ?sorted) = mset (map (\<lambda>t. Name (resource t)) ?got)"
    using m by simp
  with dg have ds: "distinct (map (\<lambda>t. Name (resource t)) ?sorted)"
    using mset_eq_imp_distinct_iff by blast
  have ty: "\<forall>t \<in> set ?sorted. \<forall>b \<in> set (blocks t). root (to_attr b) = Name (resource t)"
  proof (intro ballI)
    fix t b assume "t \<in> set ?sorted" and b: "b \<in> set (blocks t)"
    then have "t \<in> set ?got" using mset_eq_setD [OF m] by simp
    with sub obtain r' where "t = ?task r'" by auto
    with b show "root (to_attr b) = Name (resource t)"
      by (simp add: task_block_type task_resource)
  qed
  have 1: "filter (\<lambda>b. root (to_attr b) = Name r) allBlocks
           = (if ?task r \<in> set ?got
              then map (importBlock (StringVal ext) (Name r) provider)
                     (filter (\<lambda>i. filterResourceByName (Name r) (cleanedID provider i) inc
                                     = Inr True) ids)
              else [])"
  proof (cases "?task r \<in> set ?got")
    case True
    then have mem: "?task r \<in> set ?sorted" using mset_eq_setD [OF m] by simp
    have "filter (\<lambda>b. root (to_attr b) = Name (resource (?task r))) (concat (map blocks ?sorted))
            = blocks (?task r)"
      by (rule filter_concat_key [OF ds mem ty])
    then have "filter (\<lambda>b. root (to_attr b) = Name r) allBlocks = blocks (?task r)"
      by (simp add: all task_resource)
    moreover have "err (?task r) = None" using ok True by simp
    ultimately show ?thesis
      using task_blocks_ok [OF assms(5,6), of "StringVal ext" provider inc] True
      by (simp add: kept_def)
  next
    case False
    have "\<forall>b \<in> set allBlocks. root (to_attr b) \<noteq> Name r"
    proof
      fix b assume "b \<in> set allBlocks"
      then obtain t where t: "t \<in> set ?sorted" "b \<in> set (blocks t)"
        unfolding all by auto
      then have tg: "t \<in> set ?got" using mset_eq_setD [OF m] by simp
      with sub obtain r' where r': "r' \<in> set filtered" "t = ?task r'" by auto
      with tg False have "r' \<noteq> r" by auto
      with r'(1) assms(4) d have "Name r' \<noteq> Name r"
        by (auto simp: distinct_map inj_on_def)
      moreover have "root (to_attr b) = Name r'"
        using t(2) r'(2) by (simp add: task_block_type)
      ultimately show "root (to_attr b) \<noteq> Name r" by simp
    qed
    then have "filter (\<lambda>b. root (to_attr b) = Name r) allBlocks = []"
      by (simp add: filter_empty_conv)
    with False show ?thesis by simp
  qed
  have 2: "lateSends sched = 0 \<longrightarrow> ?task r \<in> set ?got"
  proof
    assume "lateSends sched = 0"
    from mset_eq_setD [OF received_all_mset [OF this, of "map ?task filtered"]] assms(4)
    show "?task r \<in> set ?got" by simp
  qed
  have 4: "sorted (map (\<lambda>t. Name (resource t)) ?sorted)"
    by (simp add: sortResults_def)
  from 1 2 all 4 show ?thesis by (intro conjI)
qed

lemma zebra_apple_written:
  "importsWritten (snd (generateImportBlocks succeeding inOrder () [zebra, apple] ''out'' [] []))
     = [[ImportBlock (traversal ''apple'' ''_z'') ''z'' None,
         ImportBlock (traversal ''apple'' ''_y'') ''y'' None,
         ImportBlock (traversal ''zebra'' ''_b2'') ''b2'' None,
         ImportBlock (traversal ''zebra'' ''_a1'') ''a1'' None,
         ImportBlock (traversal ''zebra'' ''_c3'') ''c3'' None]]"
  by code_simp

lemma zebra_alone_written:
  "importsWritten (snd (generateImportBlocks succeeding oneLate () [zebra, apple] ''out'' [] []))
     = [[ImportBlock (traversal ''zebra'' ''_b2'') ''b2'' None,
         ImportBlock (traversal ''zebra'' ''_a1'') ''a1'' None,
         ImportBlock (traversal ''zebra'' ''_c3'') ''c3'' None]]"
  by code_simp

lemma zebra_apple_arrival:
  "received inOrder (map (task (StringVal succeeding) () [] []) [zebra, apple])
     = [task (StringVal succeeding) () [] [] zebra, task (StringVal succeeding) () [] [] apple]"
  by (simp add: received_def inOrder_def Let_def)

lemma zebra_alone_arrival:
  "received oneLate (map (task (StringVal succeeding) () [] []) [zebra, apple])
     = [task (StringVal succeeding) () [] [] zebra]"
  by (simp add: received_def oneLate_def Let_def)

lemma apple_not_zebra:
  "task (StringVal succeeding) () [] [] apple \<noteq> task (StringVal succeeding) () [] [] zebra"
proof
  assume "task (StringVal succeeding) () [] [] apple = task (StringVal succeeding) () [] [] zebra"
  then have "resource (task (StringVal succeeding) () [] [] apple)
               = resource (task (StringVal succeeding) () [] [] zebra)"
    by simp
  then have "Name apple = Name zebra" by (simp only: task_resource)
  then show False by (simp add: apple_def zebra_def)
qed

theorem blocks_in_lister_order_witness:
  "distinct (map Name [zebra, apple])
   \<and> filterResources [zebra, apple] [] = Inr [zebra, apple]
   \<and> zebra \<in> set [zebra, apple]
   \<and> lateSends inOrder = 0
   \<and> received inOrder (map (task (StringVal succeeding) () [] []) [zebra, apple])
       = [task (StringVal succeeding) () [] [] zebra, task (StringVal succeeding) () [] [] apple]
   \<and> importsWritten (snd (generateImportBlocks succeeding inOrder () [zebra, apple] ''out'' [] []))
       = [[ImportBlock (traversal ''apple'' ''_z'') ''z'' None,
           ImportBlock (traversal ''apple'' ''_y'') ''y'' None,
           ImportBlock (traversal ''zebra'' ''_b2'') ''b2'' None,
           ImportBlock (traversal ''zebra'' ''_a1'') ''a1'' None,
           ImportBlock (traversal ''zebra'' ''_c3'') ''c3'' None]]
   \<and> filter (\<lambda>b. root (to_attr b) = ''zebra'')
        [ImportBlock (traversal ''apple'' ''_z'') ''z'' None,
         ImportBlock (traversal ''apple'' ''_y'') ''y'' None,
         ImportBlock (traversal ''zebra'' ''_b2'') ''b2'' None,
         ImportBlock (traversal ''zebra'' ''_a1'') ''a1'' None,
         ImportBlock (traversal ''zebra'' ''_c3'') ''c3'' None]
       = map (importBlock (StringVal succeeding) ''zebra'' []) [''b2'', ''a1'', ''c3'']
   \<and> apple \<in> set [zebra, apple]
   \<and> task (StringVal succeeding) () [] [] apple
       \<notin> set (received oneLate (map (task (StringVal succeeding) () [] []) [zebra, apple]))
   \<and> importsWritten (snd (generateImportBlocks succeeding oneLate () [zebra, apple] ''out'' [] []))
       = [[ImportBlock (traversal ''zebra'' ''_b2'') ''b2'' None,
           ImportBlock (traversal ''zebra'' ''_a1'') ''a1'' None,
           ImportBlock (traversal ''zebra'' ''_c3'') ''c3'' None]]
   \<and> filter (\<lambda>b. root (to_attr b) = ''apple'')
        [ImportBlock (traversal ''zebra'' ''_b2'') ''b2'' None,
         ImportBlock (traversal ''zebra'' ''_a1'') ''a1'' None,
         ImportBlock (traversal ''zebra'' ''_c3'') ''c3'' None] = []"
proof -
  have d: "distinct (map Name [zebra, apple])"
    by (simp add: zebra_def apple_def)
  have f: "filterResources [zebra, apple] [] = Inr [zebra, apple]"
    by (simp add: filterResources_def)
  have z: "zebra \<in> set [zebra, apple]" and a: "apple \<in> set [zebra, apple]" by simp_all
  have s: "lateSends inOrder = 0" by (simp add: inOrder_def)
  have lz: "ListIDsFunc zebra = Some (\<lambda>_. Inr [''b2'', ''a1'', ''c3''])"
    by (simp add: zebra_def)
  have la: "ListIDsFunc apple = Some (\<lambda>_. Inr [''z'', ''y''])"
    by (simp add: apple_def)
  have nz: "Name zebra = ''zebra''" by (simp add: zebra_def)
  have na: "Name apple = ''apple''" by (simp add: apple_def)
  have k: "filter (\<lambda>i. filterResourceByName ''zebra'' (cleanedID [] i) [] = Inr True)
             [''b2'', ''a1'', ''c3''] = [''b2'', ''a1'', ''c3'']"
    using kept_no_filter [of "''zebra''" "[]" "[''b2'', ''a1'', ''c3'']"]
    by (simp only: kept_def)
  note t = blocks_in_lister_order [OF d f zebra_apple_written z lz refl]
  note mem = t [THEN conjunct2, THEN conjunct1, THEN mp, OF s]
  note t1 = t [THEN conjunct1, unfolded if_P [OF mem] nz k]
  have out: "task (StringVal succeeding) () [] [] apple
       \<notin> set (received oneLate (map (task (StringVal succeeding) () [] []) [zebra, apple]))"
    unfolding zebra_alone_arrival using apple_not_zebra by simp
  note u = blocks_in_lister_order [OF d f zebra_alone_written a la refl]
  note u1 = u [THEN conjunct1, unfolded if_not_P [OF out] na]
  show ?thesis
    using d f z s zebra_apple_arrival zebra_apple_written t1 a out zebra_alone_written u1
    by (intro conjI)
qed

end
